theory Spec2Isabelle
  imports Complex_Main "HOL-Library.Monad_Syntax"
begin

section \<open>Scalars: floating-point values with their special values\<close>

text \<open>
  A tensor element is a finite number, one of the two infinities, or NaN. The special
  values follow IEEE 754 (\<open>inf - inf\<close>, \<open>0 * inf\<close>, \<open>0 / 0\<close> are NaN, every comparison
  with NaN is false, \<open>exp (-inf) = 0\<close>). The operations of this section are exact on
  finite operands and there is one zero; the rounding of the results, with underflow and
  overflow, is a parameter of the arithmetic further down, in which the suppression
  filter is stated.
\<close>

datatype fl = Fin real | PInf | NInf | NaN

fun is_nan :: "fl \<Rightarrow> bool" where
  "is_nan NaN = True"
| "is_nan _ = False"

fun fl_neg :: "fl \<Rightarrow> fl" where
  "fl_neg (Fin a) = Fin (- a)"
| "fl_neg PInf = NInf"
| "fl_neg NInf = PInf"
| "fl_neg NaN = NaN"

fun fl_add :: "fl \<Rightarrow> fl \<Rightarrow> fl" where
  "fl_add NaN _ = NaN"
| "fl_add _ NaN = NaN"
| "fl_add PInf NInf = NaN"
| "fl_add NInf PInf = NaN"
| "fl_add PInf _ = PInf"
| "fl_add _ PInf = PInf"
| "fl_add NInf _ = NInf"
| "fl_add _ NInf = NInf"
| "fl_add (Fin a) (Fin b) = Fin (a + b)"

definition fl_sub :: "fl \<Rightarrow> fl \<Rightarrow> fl" where
  "fl_sub a b = fl_add a (fl_neg b)"

text \<open>The sign of a value that is not NaN: \<open>-1\<close>, \<open>0\<close> or \<open>1\<close>.\<close>

fun fl_sgn :: "fl \<Rightarrow> int" where
  "fl_sgn (Fin a) = (if a < 0 then - 1 else if a = 0 then 0 else 1)"
| "fl_sgn PInf = 1"
| "fl_sgn NInf = - 1"
| "fl_sgn NaN = 0"

definition signed_inf :: "int \<Rightarrow> fl" where
  "signed_inf s = (if s = 0 then NaN else if s < 0 then NInf else PInf)"

fun fl_mul :: "fl \<Rightarrow> fl \<Rightarrow> fl" where
  "fl_mul NaN _ = NaN"
| "fl_mul _ NaN = NaN"
| "fl_mul (Fin a) (Fin b) = Fin (a * b)"
| "fl_mul a b = signed_inf (fl_sgn a * fl_sgn b)"

fun fl_div :: "fl \<Rightarrow> fl \<Rightarrow> fl" where
  "fl_div NaN _ = NaN"
| "fl_div _ NaN = NaN"
| "fl_div (Fin a) (Fin b) = (if b = 0 then signed_inf (fl_sgn (Fin a)) else Fin (a / b))"
| "fl_div (Fin a) _ = Fin 0"
| "fl_div a (Fin b) = signed_inf (fl_sgn a * (if b < 0 then - 1 else 1))"
| "fl_div _ _ = NaN"

fun fl_sqrt :: "fl \<Rightarrow> fl" where
  "fl_sqrt (Fin a) = (if a < 0 then NaN else Fin (sqrt a))"
| "fl_sqrt PInf = PInf"
| "fl_sqrt NInf = NaN"
| "fl_sqrt NaN = NaN"

fun fl_exp :: "fl \<Rightarrow> fl" where
  "fl_exp (Fin a) = Fin (exp a)"
| "fl_exp PInf = PInf"
| "fl_exp NInf = Fin 0"
| "fl_exp NaN = NaN"

fun fl_tanh :: "fl \<Rightarrow> fl" where
  "fl_tanh (Fin a) = Fin (tanh a)"
| "fl_tanh PInf = Fin 1"
| "fl_tanh NInf = Fin (- 1)"
| "fl_tanh NaN = NaN"

fun fl_lt :: "fl \<Rightarrow> fl \<Rightarrow> bool" where
  "fl_lt NaN _ = False"
| "fl_lt _ NaN = False"
| "fl_lt (Fin a) (Fin b) = (a < b)"
| "fl_lt _ NInf = False"
| "fl_lt PInf _ = False"
| "fl_lt NInf _ = True"
| "fl_lt _ PInf = True"

text \<open>\<open>torch.max\<close> over a dimension returns NaN as soon as one operand is NaN.\<close>

definition fl_max :: "fl \<Rightarrow> fl \<Rightarrow> fl" where
  "fl_max a b = (if is_nan a \<or> is_nan b then NaN else if fl_lt a b then b else a)"

text \<open>\<open>Tensor.to(torch.bool)\<close> on a float: everything but zero is true, NaN included.\<close>

definition to_bool :: "fl \<Rightarrow> bool" where
  "to_bool x = (x \<noteq> Fin 0)"

text \<open>\<open>Tensor.to(torch.float)\<close> on a bool.\<close>

definition bool_to_float :: "bool \<Rightarrow> fl" where
  "bool_to_float b = (if b then Fin 1 else Fin 0)"

definition fl_sum :: "fl list \<Rightarrow> fl" where
  "fl_sum xs = foldr fl_add xs (Fin 0)"

fun fl_maximum :: "fl list \<Rightarrow> fl" where
  "fl_maximum [] = NInf"
| "fl_maximum (x # xs) = foldl fl_max x xs"

text \<open>
  \<open>torch.nn.functional.softmax\<close> along one row: \<open>exp (x - max) / sum (exp (x - max))\<close>.
  A row of \<open>-inf\<close> only, and a row holding \<open>+inf\<close> or NaN, come out as NaN throughout.
\<close>

definition softmax_row :: "fl list \<Rightarrow> fl list" where
  "softmax_row xs =
     (let m = fl_maximum xs;
          es = map (\<lambda>x. fl_exp (fl_sub x m)) xs;
          s = fl_sum es
      in map (\<lambda>e. fl_div e s) es)"

section \<open>Tensors\<close>

text \<open>
  A tensor is its shape and its elements in row-major (contiguous) order, as
  \<open>torch.Tensor\<close> stores them; a well-formed tensor has as many elements as its shape
  says. A dimension of size zero keeps the other sizes, as in torch.
\<close>

record 'a tensor =
  shape :: "nat list"
  data :: "'a list"

definition wft :: "'a tensor \<Rightarrow> bool" where
  "wft t \<longleftrightarrow> length (data t) = prod_list (shape t)"

definition mk2 :: "nat \<Rightarrow> nat \<Rightarrow> (nat \<Rightarrow> nat \<Rightarrow> 'a) \<Rightarrow> 'a tensor" where
  "mk2 a b g = \<lparr>shape = [a, b], data = map (\<lambda>f. g (f div b) (f mod b)) [0..<a * b]\<rparr>"

definition mk3 :: "nat \<Rightarrow> nat \<Rightarrow> nat \<Rightarrow> (nat \<Rightarrow> nat \<Rightarrow> nat \<Rightarrow> 'a) \<Rightarrow> 'a tensor" where
  "mk3 a b c g =
     \<lparr>shape = [a, b, c],
      data = map (\<lambda>f. g (f div (b * c)) (f div c mod b) (f mod c)) [0..<a * b * c]\<rparr>"

definition mk4 ::
  "nat \<Rightarrow> nat \<Rightarrow> nat \<Rightarrow> nat \<Rightarrow> (nat \<Rightarrow> nat \<Rightarrow> nat \<Rightarrow> nat \<Rightarrow> 'a) \<Rightarrow> 'a tensor" where
  "mk4 a b c d g =
     \<lparr>shape = [a, b, c, d],
      data = map (\<lambda>f. g (f div (b * c * d)) (f div (c * d) mod b) (f div d mod c) (f mod d))
               [0..<a * b * c * d]\<rparr>"

text \<open>Element access; meaningful on a well-formed tensor of that rank, inside its shape.\<close>

definition at2 :: "'a tensor \<Rightarrow> nat \<Rightarrow> nat \<Rightarrow> 'a" where
  "at2 t i j = data t ! (i * (shape t ! 1) + j)"

definition at3 :: "'a tensor \<Rightarrow> nat \<Rightarrow> nat \<Rightarrow> nat \<Rightarrow> 'a" where
  "at3 t i j k = data t ! ((i * (shape t ! 1) + j) * (shape t ! 2) + k)"

definition at4 :: "'a tensor \<Rightarrow> nat \<Rightarrow> nat \<Rightarrow> nat \<Rightarrow> nat \<Rightarrow> 'a" where
  "at4 t i j k l =
     data t ! (((i * (shape t ! 1) + j) * (shape t ! 2) + k) * (shape t ! 3) + l)"

text \<open>The row \<open>t[i, j, :]\<close> of a 3-D tensor.\<close>

definition row3 :: "'a tensor \<Rightarrow> nat \<Rightarrow> nat \<Rightarrow> 'a list" where
  "row3 t i j = map (at3 t i j) [0..<shape t ! 2]"

definition tmap :: "('a \<Rightarrow> 'b) \<Rightarrow> 'a tensor \<Rightarrow> 'b tensor" where
  "tmap f t = \<lparr>shape = shape t, data = map f (data t)\<rparr>"

definition full :: "nat list \<Rightarrow> 'a \<Rightarrow> 'a tensor" where
  "full s v = \<lparr>shape = s, data = replicate (prod_list s) v\<rparr>"

text \<open>
  Broadcasting of one dimension: sizes agree, or one of them is 1. The result is the
  common size, and an index into the operand of size 1 is 0.
\<close>

definition bdim :: "nat \<Rightarrow> nat \<Rightarrow> nat option" where
  "bdim a b = (if a = b then Some a else if a = 1 then Some b else if b = 1 then Some a else None)"

definition bidx :: "nat \<Rightarrow> nat \<Rightarrow> nat" where
  "bidx n i = (if n = 1 then 0 else i)"

text \<open>An elementwise binary operation on two 3-D tensors, with broadcasting.\<close>

definition bop3 :: "('a \<Rightarrow> 'b \<Rightarrow> 'c) \<Rightarrow> 'a tensor \<Rightarrow> 'b tensor \<Rightarrow> 'c tensor option" where
  "bop3 f x y =
     (case (shape x, shape y) of
        ([a, b, c], [a', b', c']) \<Rightarrow>
          do {
            n0 \<leftarrow> bdim a a';
            n1 \<leftarrow> bdim b b';
            n2 \<leftarrow> bdim c c';
            Some (mk3 n0 n1 n2 (\<lambda>i j k.
              f (at3 x (bidx a i) (bidx b j) (bidx c k))
                (at3 y (bidx a' i) (bidx b' j) (bidx c' k))))
          }
      | _ \<Rightarrow> None)"

text \<open>\<open>torch.where(cond, x, y)\<close> on three 3-D tensors of one shape.\<close>

definition where3 :: "bool tensor \<Rightarrow> 'a tensor \<Rightarrow> 'a tensor \<Rightarrow> 'a tensor option" where
  "where3 c x y =
     do {
       xy \<leftarrow> bop3 Pair x y;
       bop3 (\<lambda>b (u, v). if b then u else v) c xy
     }"

text \<open>\<open>torch.sum(t, dim=-1, keepdim=True)\<close> on a 3-D tensor.\<close>

definition sum_last_keepdim :: "fl tensor \<Rightarrow> fl tensor option" where
  "sum_last_keepdim t =
     (case shape t of
        [a, b, c] \<Rightarrow> Some (mk3 a b 1 (\<lambda>i j k. fl_sum (row3 t i j)))
      | _ \<Rightarrow> None)"

text \<open>\<open>softmax(t, dim=-1)\<close> on a 3-D tensor.\<close>

definition softmax_last :: "fl tensor \<Rightarrow> fl tensor option" where
  "softmax_last t =
     (case shape t of
        [a, b, c] \<Rightarrow> Some (mk3 a b c (\<lambda>i j k. softmax_row (row3 t i j) ! k))
      | _ \<Rightarrow> None)"

section \<open>Attention suppression\<close>

text \<open>
  \<open>attention_suppression(attention_weights, scale)\<close>, called on the 3-D score tensor
  \<open>(batch * heads, query_len, key_len)\<close>. The conversions \<open>.float()\<close> and \<open>type_as\<close> do
  not change a value of the model. \<open>None\<close> stands for an exception of torch.
\<close>

definition eps8 :: fl where
  "eps8 = Fin (1 / 10 ^ 8)"

definition attention_suppression :: "fl tensor \<Rightarrow> real \<Rightarrow> fl tensor option" where
  "attention_suppression attention_weights scale =
     do {
       attention_prob \<leftarrow> softmax_last attention_weights;
       let attention_nozeros = tmap to_bool attention_prob;
       nozeros_sum \<leftarrow> sum_last_keepdim (tmap bool_to_float attention_nozeros);
       key_sum \<leftarrow> sum_last_keepdim attention_prob;
       key_mean \<leftarrow> bop3 fl_div key_sum (tmap (\<lambda>x. fl_add x eps8) nozeros_sum);
       d1 \<leftarrow> bop3 fl_sub attention_prob key_mean;
       d2 \<leftarrow> bop3 fl_sub attention_prob key_mean;
       dis \<leftarrow> bop3 fl_mul d1 d2;
       dis_masked \<leftarrow> where3 attention_nozeros dis (full (shape attention_prob) (Fin 0));
       key_var \<leftarrow> sum_last_keepdim dis_masked;
       key_var \<leftarrow> bop3 fl_div key_var
                    (tmap (\<lambda>x. fl_add (fl_sub x (Fin 1)) eps8) nozeros_sum);
       let key_std = tmap fl_sqrt key_var;
       key_thread \<leftarrow> bop3 fl_sub key_mean (tmap (\<lambda>x. fl_mul (Fin scale) x) key_std);
       let inf_tensor = full (shape attention_prob) NInf;
       below \<leftarrow> bop3 fl_lt attention_prob key_thread;
       where3 below inf_tensor attention_weights
     }"

text \<open>
  The threshold of one query row as the specification words it: from the probabilities
  of the row, the count of its non-zero entries, the mean, the variance over the
  non-zero entries, and the mean minus \<open>s\<close> times the standard deviation.
\<close>

definition row_threshold :: "fl list \<Rightarrow> real \<Rightarrow> fl" where
  "row_threshold p s =
     (let nonzero_count = Fin (real (length (filter (\<lambda>x. x \<noteq> Fin 0) p)));
          mean = fl_div (fl_sum p) (fl_add nonzero_count eps8);
          var = fl_div
                  (fl_sum (map (\<lambda>x. if x \<noteq> Fin 0
                                      then fl_mul (fl_sub x mean) (fl_sub x mean) else Fin 0) p))
                  (fl_add (fl_sub nonzero_count (Fin 1)) eps8)
      in fl_sub mean (fl_mul (Fin s) (fl_sqrt var)))"

section \<open>Attention suppression in an arithmetic that rounds\<close>

text \<open>
  The same function, \<open>attention_suppression(attention_weights, scale)\<close>, with the
  rounding of the machine arithmetic made explicit. A rounding \<open>rnd\<close> gives the value
  that is stored for the exact result of an operation: a finite number, zero when the
  result underflows, an infinity when it overflows. Every finite result of an addition,
  subtraction, multiplication, division, square root or exponential goes through it;
  the special values are treated as above. The Python floats \<open>1e-8\<close> and \<open>scale\<close> are
  rounded when they meet the tensor; \<open>0.0\<close>, \<open>1.0\<close>, \<open>-inf\<close> and the conversion of a
  bool are exact. With \<open>rnd = Fin\<close> nothing is rounded.
\<close>

definition fl_round :: "(real \<Rightarrow> fl) \<Rightarrow> fl \<Rightarrow> fl" where
  "fl_round rnd x = (case x of Fin a \<Rightarrow> rnd a | _ \<Rightarrow> x)"

definition add_with :: "(real \<Rightarrow> fl) \<Rightarrow> fl \<Rightarrow> fl \<Rightarrow> fl" where
  "add_with rnd a b = fl_round rnd (fl_add a b)"

definition sub_with :: "(real \<Rightarrow> fl) \<Rightarrow> fl \<Rightarrow> fl \<Rightarrow> fl" where
  "sub_with rnd a b = fl_round rnd (fl_sub a b)"

definition mul_with :: "(real \<Rightarrow> fl) \<Rightarrow> fl \<Rightarrow> fl \<Rightarrow> fl" where
  "mul_with rnd a b = fl_round rnd (fl_mul a b)"

definition div_with :: "(real \<Rightarrow> fl) \<Rightarrow> fl \<Rightarrow> fl \<Rightarrow> fl" where
  "div_with rnd a b = fl_round rnd (fl_div a b)"

definition sqrt_with :: "(real \<Rightarrow> fl) \<Rightarrow> fl \<Rightarrow> fl" where
  "sqrt_with rnd a = fl_round rnd (fl_sqrt a)"

definition exp_with :: "(real \<Rightarrow> fl) \<Rightarrow> fl \<Rightarrow> fl" where
  "exp_with rnd a = fl_round rnd (fl_exp a)"

definition sum_with :: "(real \<Rightarrow> fl) \<Rightarrow> fl list \<Rightarrow> fl" where
  "sum_with rnd xs = foldr (add_with rnd) xs (Fin 0)"

definition softmax_row_with :: "(real \<Rightarrow> fl) \<Rightarrow> fl list \<Rightarrow> fl list" where
  "softmax_row_with rnd xs =
     (let m = fl_maximum xs;
          es = map (\<lambda>x. exp_with rnd (sub_with rnd x m)) xs;
          s = sum_with rnd es
      in map (\<lambda>e. div_with rnd e s) es)"

definition sum_last_keepdim_with :: "(real \<Rightarrow> fl) \<Rightarrow> fl tensor \<Rightarrow> fl tensor option" where
  "sum_last_keepdim_with rnd t =
     (case shape t of
        [a, b, c] \<Rightarrow> Some (mk3 a b 1 (\<lambda>i j k. sum_with rnd (row3 t i j)))
      | _ \<Rightarrow> None)"

definition softmax_last_with :: "(real \<Rightarrow> fl) \<Rightarrow> fl tensor \<Rightarrow> fl tensor option" where
  "softmax_last_with rnd t =
     (case shape t of
        [a, b, c] \<Rightarrow> Some (mk3 a b c (\<lambda>i j k. softmax_row_with rnd (row3 t i j) ! k))
      | _ \<Rightarrow> None)"

definition attention_suppression_with ::
  "(real \<Rightarrow> fl) \<Rightarrow> fl tensor \<Rightarrow> real \<Rightarrow> fl tensor option" where
  "attention_suppression_with rnd attention_weights scale =
     do {
       attention_prob \<leftarrow> softmax_last_with rnd attention_weights;
       let attention_nozeros = tmap to_bool attention_prob;
       nozeros_sum \<leftarrow> sum_last_keepdim_with rnd (tmap bool_to_float attention_nozeros);
       key_sum \<leftarrow> sum_last_keepdim_with rnd attention_prob;
       key_mean \<leftarrow> bop3 (div_with rnd) key_sum
                     (tmap (\<lambda>x. add_with rnd x (fl_round rnd eps8)) nozeros_sum);
       d1 \<leftarrow> bop3 (sub_with rnd) attention_prob key_mean;
       d2 \<leftarrow> bop3 (sub_with rnd) attention_prob key_mean;
       dis \<leftarrow> bop3 (mul_with rnd) d1 d2;
       dis_masked \<leftarrow> where3 attention_nozeros dis (full (shape attention_prob) (Fin 0));
       key_var \<leftarrow> sum_last_keepdim_with rnd dis_masked;
       key_var \<leftarrow> bop3 (div_with rnd) key_var
                    (tmap (\<lambda>x. add_with rnd (sub_with rnd x (Fin 1)) (fl_round rnd eps8))
                       nozeros_sum);
       let key_std = tmap (sqrt_with rnd) key_var;
       key_thread \<leftarrow> bop3 (sub_with rnd) key_mean
                       (tmap (\<lambda>x. mul_with rnd (fl_round rnd (Fin scale)) x) key_std);
       let inf_tensor = full (shape attention_prob) NInf;
       below \<leftarrow> bop3 fl_lt attention_prob key_thread;
       where3 below inf_tensor attention_weights
     }"

text \<open>
  The threshold of one query row as the specification words it, in that arithmetic:
  from the probabilities \<open>p\<close> of the row, the number of its non-zero entries, the mean
  \<open>sum(p) / (nonzero_count + 1e-8)\<close>, the variance over the non-zero entries divided by
  \<open>nonzero_count - 1 + 1e-8\<close>, and \<open>mean - s * sqrt(var)\<close>.
\<close>

definition row_threshold_with :: "(real \<Rightarrow> fl) \<Rightarrow> fl list \<Rightarrow> real \<Rightarrow> fl" where
  "row_threshold_with rnd p s =
     (let nonzero_count = Fin (real (length (filter (\<lambda>x. x \<noteq> Fin 0) p)));
          mean = div_with rnd (sum_with rnd p) (add_with rnd nonzero_count (fl_round rnd eps8));
          var = div_with rnd
                  (sum_with rnd
                     (map (\<lambda>x. if x \<noteq> Fin 0
                               then mul_with rnd (sub_with rnd x mean) (sub_with rnd x mean)
                               else Fin 0) p))
                  (add_with rnd (sub_with rnd nonzero_count (Fin 1)) (fl_round rnd eps8))
      in sub_with rnd mean (mul_with rnd (fl_round rnd (Fin s)) (sqrt_with rnd var)))"

text \<open>
  A rounding that only underflows: a result of size at most \<open>2 ^ -150\<close>, which single
  precision rounds to zero, becomes zero, and every other result is kept. With it
  \<open>exp (-1000)\<close> is zero. The scores are one query row: a zero and nine times \<open>-1000\<close>;
  the probabilities are their softmax in that arithmetic.
\<close>

definition flush_to_zero :: "real \<Rightarrow> fl" where
  "flush_to_zero a = (if \<bar>a\<bar> \<le> 1 / 2 ^ 150 then Fin 0 else Fin a)"

definition sparse_row :: "fl list" where
  "sparse_row = [Fin 0, Fin (- 1000), Fin (- 1000), Fin (- 1000), Fin (- 1000),
                 Fin (- 1000), Fin (- 1000), Fin (- 1000), Fin (- 1000), Fin (- 1000)]"

definition sparse_probs :: "fl list" where
  "sparse_probs = [Fin 1, Fin 0, Fin 0, Fin 0, Fin 0, Fin 0, Fin 0, Fin 0, Fin 0, Fin 0]"

definition sparse_scores :: "fl tensor" where
  "sparse_scores = \<lparr>shape = [1, 1, 10], data = sparse_row\<rparr>"

section \<open>Python slices\<close>

text \<open>
  A slice bound of Python, for a sequence of length \<open>n\<close>: a negative bound counts from
  the end, and every bound is clamped into \<open>0..n\<close>. \<open>None\<close> is an omitted bound.
\<close>

definition py_index :: "int \<Rightarrow> nat \<Rightarrow> nat" where
  "py_index i n = (if i < 0 then nat (max 0 (int n + i)) else min (nat i) n)"

definition py_bounds :: "int option \<Rightarrow> int option \<Rightarrow> nat \<Rightarrow> nat \<times> nat" where
  "py_bounds start stop n =
     (case start of None \<Rightarrow> 0 | Some i \<Rightarrow> py_index i n,
      case stop of None \<Rightarrow> n | Some j \<Rightarrow> py_index j n)"

text \<open>\<open>xs[start:stop]\<close> on a Python list.\<close>

definition py_slice :: "int option \<Rightarrow> int option \<Rightarrow> 'a list \<Rightarrow> 'a list" where
  "py_slice start stop xs =
     (let (lo, hi) = py_bounds start stop (length xs) in take (hi - lo) (drop lo xs))"

text \<open>\<open>t[start:stop]\<close> on a tensor: a slice of its first dimension (none on a scalar).\<close>

definition slice0 :: "int option \<Rightarrow> int option \<Rightarrow> 'a tensor \<Rightarrow> 'a tensor option" where
  "slice0 start stop t =
     (case shape t of
        [] \<Rightarrow> None
      | n # rest \<Rightarrow>
          let (lo, hi) = py_bounds start stop n; p = prod_list rest
          in Some \<lparr>shape = (hi - lo) # rest, data = take ((hi - lo) * p) (drop (lo * p) (data t))\<rparr>)"

text \<open>\<open>t[:, start:stop]\<close> on a 2-D tensor.\<close>

definition slice1 :: "int option \<Rightarrow> int option \<Rightarrow> 'a tensor \<Rightarrow> 'a tensor option" where
  "slice1 start stop t =
     (case shape t of
        [a, b] \<Rightarrow>
          let (lo, hi) = py_bounds start stop b
          in Some (mk2 a (hi - lo) (\<lambda>i j. at2 t i (lo + j)))
      | _ \<Rightarrow> None)"

section \<open>Operations of torch\<close>

text \<open>
  \<open>torch.cat(ts, dim=0)\<close>: the tensors agree on every dimension but the first; an empty
  1-D tensor (shape \<open>[0]\<close>) is skipped; an empty list is an error.
\<close>

definition cat0 :: "'a tensor list \<Rightarrow> 'a tensor option" where
  "cat0 ts =
     (case filter (\<lambda>t. shape t \<noteq> [0]) ts of
        [] \<Rightarrow> (if ts = [] then None else Some \<lparr>shape = [0], data = []\<rparr>)
      | u # us \<Rightarrow>
          (case shape u of
             [] \<Rightarrow> None
           | n # rest \<Rightarrow>
               if list_all (\<lambda>t. shape t \<noteq> [] \<and> tl (shape t) = rest) us
               then Some \<lparr>shape = sum_list (map (\<lambda>t. hd (shape t)) (u # us)) # rest,
                          data = concat (map data (u # us))\<rparr>
               else None))"

text \<open>\<open>torch.cat([x, y], dim=1)\<close> on two 2-D tensors.\<close>

definition cat1 :: "'a tensor \<Rightarrow> 'a tensor \<Rightarrow> 'a tensor option" where
  "cat1 x y =
     (case (shape x, shape y) of
        ([a, b], [a', b']) \<Rightarrow>
          if a = a'
          then Some (mk2 a (b + b') (\<lambda>i j. if j < b then at2 x i j else at2 y i (j - b)))
          else None
      | _ \<Rightarrow> None)"

text \<open>
  \<open>t.view(s)\<close> and \<open>t.view(-1, s)\<close> on a contiguous tensor: the elements stay, the
  shape changes. The size \<open>-1\<close> is the quotient, which torch refuses to infer when the
  other sizes multiply to zero.
\<close>

definition view :: "nat list \<Rightarrow> 'a tensor \<Rightarrow> 'a tensor option" where
  "view s t = (if prod_list s = length (data t) then Some \<lparr>shape = s, data = data t\<rparr> else None)"

definition view_infer :: "nat list \<Rightarrow> 'a tensor \<Rightarrow> 'a tensor option" where
  "view_infer s t =
     (let p = prod_list s; n = length (data t)
      in if p = 0 \<or> n mod p \<noteq> 0 then None else Some \<lparr>shape = (n div p) # s, data = data t\<rparr>)"

text \<open>\<open>t.unsqueeze(k)\<close>.\<close>

definition unsqueeze :: "nat \<Rightarrow> 'a tensor \<Rightarrow> 'a tensor option" where
  "unsqueeze k t =
     (if k \<le> length (shape t)
      then Some \<lparr>shape = take k (shape t) @ [1] @ drop k (shape t), data = data t\<rparr>
      else None)"

text \<open>\<open>t.transpose(0, 1)\<close> and \<open>t.transpose(1, 2)\<close> on a 3-D tensor.\<close>

definition transpose01 :: "'a tensor \<Rightarrow> 'a tensor option" where
  "transpose01 t =
     (case shape t of [a, b, c] \<Rightarrow> Some (mk3 b a c (\<lambda>i j k. at3 t j i k)) | _ \<Rightarrow> None)"

definition transpose12 :: "'a tensor \<Rightarrow> 'a tensor option" where
  "transpose12 t =
     (case shape t of [a, b, c] \<Rightarrow> Some (mk3 a c b (\<lambda>i j k. at3 t i k j)) | _ \<Rightarrow> None)"

text \<open>\<open>torch.bmm(x, y)\<close>: a batch of matrix products.\<close>

definition bmm :: "fl tensor \<Rightarrow> fl tensor \<Rightarrow> fl tensor option" where
  "bmm x y =
     (case (shape x, shape y) of
        ([n, p, q], [n', q', r]) \<Rightarrow>
          if n = n' \<and> q = q'
          then Some (mk3 n p r (\<lambda>i j k.
                 fl_sum (map (\<lambda>l. fl_mul (at3 x i j l) (at3 y i l k)) [0..<q])))
          else None
      | _ \<Rightarrow> None)"

text \<open>
  \<open>torch.nn.Linear\<close>, applied to the last dimension of a 3-D tensor:
  \<open>y = x W\<^sup>T + b\<close>, with \<open>W\<close> given by its \<open>out_features\<close> rows.
\<close>

record linear_layer =
  in_features :: nat
  out_features :: nat
  weight :: "fl list list"
  bias :: "fl list option"

definition wf_linear :: "linear_layer \<Rightarrow> bool" where
  "wf_linear l \<longleftrightarrow>
     length (weight l) = out_features l \<and>
     list_all (\<lambda>r. length r = in_features l) (weight l) \<and>
     (case bias l of None \<Rightarrow> True | Some b \<Rightarrow> length b = out_features l)"

definition dot :: "fl list \<Rightarrow> fl list \<Rightarrow> fl" where
  "dot xs ws = fl_sum (map (\<lambda>(x, w). fl_mul x w) (zip xs ws))"

definition apply_linear :: "linear_layer \<Rightarrow> fl tensor \<Rightarrow> fl tensor option" where
  "apply_linear l t =
     (case shape t of
        [a, b, c] \<Rightarrow>
          if c = in_features l
          then Some (mk3 a b (out_features l) (\<lambda>i j k.
                 let y = dot (row3 t i j) (weight l ! k)
                 in case bias l of None \<Rightarrow> y | Some bs \<Rightarrow> fl_add y (bs ! k)))
          else None
      | _ \<Rightarrow> None)"

text \<open>
  \<open>w[:, -1, :m] = v\<close> on a 3-D tensor: the last index of the second dimension (an
  IndexError when that dimension is empty), the first \<open>m\<close> columns.
\<close>

definition fill_last_row :: "nat \<Rightarrow> 'a \<Rightarrow> 'a tensor \<Rightarrow> 'a tensor option" where
  "fill_last_row m v w =
     (case shape w of
        [n, p, q] \<Rightarrow>
          if p = 0 then None
          else Some (mk3 n p q (\<lambda>i j k. if j = p - 1 \<and> k < m then v else at3 w i j k))
      | _ \<Rightarrow> None)"

text \<open>\<open>t.any()\<close> on a bool tensor.\<close>

definition tensor_any :: "bool tensor \<Rightarrow> bool" where
  "tensor_any t = list_ex (\<lambda>b. b) (data t)"

text \<open>
  \<open>w.masked_fill(mask, v)\<close> on 4-D tensors; the mask is broadcast to the shape of \<open>w\<close>,
  so each of its sizes is that of \<open>w\<close> or 1.
\<close>

definition masked_fill4 :: "'a tensor \<Rightarrow> bool tensor \<Rightarrow> 'a \<Rightarrow> 'a tensor option" where
  "masked_fill4 w msk v =
     (case (shape w, shape msk) of
        ([a, b, c, d], [a', b', c', d']) \<Rightarrow>
          if (a' = a \<or> a' = 1) \<and> (b' = b \<or> b' = 1) \<and> (c' = c \<or> c' = 1) \<and> (d' = d \<or> d' = 1)
          then Some (mk4 a b c d (\<lambda>i j k l.
                 if at4 msk (bidx a' i) (bidx b' j) (bidx c' k) (bidx d' l) then v
                 else at4 w i j k l))
          else None
      | _ \<Rightarrow> None)"

text \<open>\<open>t.masked_fill(mask, v)\<close> with a mask of the shape of \<open>t\<close>.\<close>

definition masked_fill :: "'a tensor \<Rightarrow> bool tensor \<Rightarrow> 'a \<Rightarrow> 'a tensor" where
  "masked_fill t msk v =
     \<lparr>shape = shape t, data = map (\<lambda>(x, b). if b then v else x) (zip (data t) (data msk))\<rparr>"

text \<open>
  A dropout module. \<open>None\<close> is the module switched off (evaluation mode); \<open>Some m\<close> is
  one draw in training mode: the element at flat position \<open>f\<close> is multiplied by \<open>m f\<close>,
  which is \<open>0\<close> for a dropped element and \<open>1 / (1 - p)\<close> for a kept one.
\<close>

definition apply_dropout :: "(nat \<Rightarrow> real) option \<Rightarrow> fl tensor \<Rightarrow> fl tensor" where
  "apply_dropout d t =
     (case d of
        None \<Rightarrow> t
      | Some m \<Rightarrow>
          \<lparr>shape = shape t,
           data = map (\<lambda>f. fl_mul (data t ! f) (Fin (m f))) [0..<length (data t)]\<rparr>)"

text \<open>\<open>torch.mean(t, keepdim=True, dim=0)\<close> on a 3-D tensor; NaN when there is no row.\<close>

definition mean_dim0_keepdim :: "fl tensor \<Rightarrow> fl tensor option" where
  "mean_dim0_keepdim t =
     (case shape t of
        [a, b, c] \<Rightarrow>
          Some (mk3 1 b c (\<lambda>i j k.
            fl_div (fl_sum (map (\<lambda>r. at3 t r j k) [0..<a])) (Fin (real a))))
      | _ \<Rightarrow> None)"

text \<open>
  \<open>torch.nn.LayerNorm\<close> over the last dimension of a 3-D tensor, with its elementwise
  weight and bias: \<open>(x - mean) / sqrt (var + eps) * weight + bias\<close>, the variance biased.
\<close>

record layer_norm =
  normalized_dim :: nat
  ln_eps :: real
  ln_weight :: "fl list"
  ln_bias :: "fl list"

definition layer_norm_row :: "layer_norm \<Rightarrow> fl list \<Rightarrow> fl list" where
  "layer_norm_row p xs =
     (let n = Fin (real (length xs));
          mean = fl_div (fl_sum xs) n;
          var = fl_div (fl_sum (map (\<lambda>x. fl_mul (fl_sub x mean) (fl_sub x mean)) xs)) n;
          sd = fl_sqrt (fl_add var (Fin (ln_eps p)))
      in map (\<lambda>(x, g, b). fl_add (fl_mul (fl_div (fl_sub x mean) sd) g) b)
           (zip xs (zip (ln_weight p) (ln_bias p))))"

definition apply_layer_norm :: "layer_norm \<Rightarrow> fl tensor \<Rightarrow> fl tensor option" where
  "apply_layer_norm p t =
     (case shape t of
        [a, b, c] \<Rightarrow>
          if c = normalized_dim p \<and> length (ln_weight p) = c \<and> length (ln_bias p) = c
          then Some (mk3 a b c (\<lambda>i j k. layer_norm_row p (row3 t i j) ! k))
          else None
      | _ \<Rightarrow> None)"

section \<open>AugmentedMemoryMultiheadAttention\<close>

text \<open>
  The module. Its projections, its scaling, its sizes and its dropout module come from
  the base class \<open>MultiheadAttention\<close>, which is not among the sources at hand: they are
  parameters here, the projections as \<open>torch.nn.Linear\<close> layers. \<open>tanh_on_mem\<close> selects
  \<open>squash_mem\<close>; \<open>v2e\<close> is the identity.
\<close>

record attention =
  embed_dim :: nat
  num_heads :: nat
  head_dim :: nat
  scaling :: real
  q_proj :: linear_layer
  k_proj :: linear_layer
  v_proj :: linear_layer
  out_proj :: linear_layer
  attn_dropout_module :: "(nat \<Rightarrow> real) option"
  std_scale :: "real option"
  disable_mem_on_mem_attn :: bool
  tanh_on_mem :: bool
  max_memory_size :: int

text \<open>
  The state of one layer, a Python dict: the list of memory banks and the last trimmed
  output; \<open>None\<close> is Python's \<open>None\<close> (or the key missing).
\<close>

record layer_state =
  memory_banks :: "fl tensor list option"
  encoder_states :: "fl tensor option"

definition squash_mem :: "attention \<Rightarrow> fl tensor \<Rightarrow> fl tensor" where
  "squash_mem self x = (if tanh_on_mem self then tmap fl_tanh x else x)"

text \<open>
  The memory banks one call attends to: the local variable \<open>memory_banks\<close> after the
  cap. The list kept in the state is not changed here.
\<close>

definition capped_memory_banks :: "attention \<Rightarrow> fl tensor list \<Rightarrow> fl tensor list" where
  "capped_memory_banks self banks =
     (if max_memory_size self > - 1 \<and> int (length banks) > max_memory_size self
      then (if max_memory_size self = 0 then []
            else py_slice (Some (- max_memory_size self)) None banks)
      else banks)"

text \<open>
  The projection of the queries, keys or values into heads:
  \<open>x.contiguous().view(-1, batch_size * num_heads, head_dim).transpose(0, 1)\<close>.
\<close>

definition split_heads :: "attention \<Rightarrow> nat \<Rightarrow> fl tensor \<Rightarrow> fl tensor option" where
  "split_heads self batch_size x =
     do {
       y \<leftarrow> view_infer [batch_size * num_heads self, head_dim self] x;
       transpose01 y
     }"

text \<open>
  The scores: from the start of \<open>forward\<close> to the assertion on the shape of
  \<open>attention_weights\<close>. The argument \<open>memory_banks\<close> is the capped list. The result is
  \<open>attention_weights\<close> together with \<open>v\<close>, which the aggregation needs.
\<close>

definition attention_scores ::
  "attention \<Rightarrow> fl tensor \<Rightarrow> fl tensor list \<Rightarrow> (fl tensor \<times> fl tensor) option" where
  "attention_scores self input_and_summary banks =
     (case shape input_and_summary of
        [len, batch_size, _] \<Rightarrow>
          do {
            let seg_length = int len - 1;
            segment \<leftarrow> slice0 None (Some (- 1)) input_and_summary;
            memory_banks_and_input \<leftarrow> cat0 (banks @ [segment]);
            q \<leftarrow> apply_linear (q_proj self) input_and_summary;
            k \<leftarrow> apply_linear (k_proj self) memory_banks_and_input;
            v \<leftarrow> apply_linear (v_proj self) memory_banks_and_input;
            q \<leftarrow> split_heads self batch_size q;
            let q = tmap (\<lambda>x. fl_mul x (Fin (scaling self))) q;
            k \<leftarrow> split_heads self batch_size k;
            v \<leftarrow> split_heads self batch_size v;
            kt \<leftarrow> transpose12 k;
            attention_weights \<leftarrow> bmm q kt;
            attention_weights \<leftarrow>
              (if disable_mem_on_mem_attn self
               then fill_last_row (length banks) NInf attention_weights
               else Some attention_weights);
            attention_weights \<leftarrow>
              (case std_scale self of
                 None \<Rightarrow> Some attention_weights
               | Some s \<Rightarrow> attention_suppression attention_weights s);
            if map int (shape attention_weights) =
                 [int (batch_size * num_heads self), seg_length + 1,
                  seg_length + int (length banks)]
            then Some (attention_weights, v)
            else None
          }
      | _ \<Rightarrow> None)"

text \<open>
  The key padding mask: applied only when it is given and marks a position. The memory
  banks get columns that are never padded.
\<close>

definition apply_key_padding_mask ::
  "attention \<Rightarrow> nat \<Rightarrow> nat \<Rightarrow> bool tensor option \<Rightarrow> fl tensor \<Rightarrow> fl tensor option" where
  "apply_key_padding_mask self batch_size n_mem key_padding_mask attention_weights =
     (case key_padding_mask of
        None \<Rightarrow> Some attention_weights
      | Some kpm \<Rightarrow>
          if tensor_any kpm
          then (case shape attention_weights of
                  [_, tgt_len, src_len] \<Rightarrow>
                    do {
                      kpm \<leftarrow> cat1 (full [batch_size, n_mem] False) kpm;
                      w \<leftarrow> view [batch_size, num_heads self, tgt_len, src_len] attention_weights;
                      m \<leftarrow> unsqueeze 1 kpm;
                      m \<leftarrow> unsqueeze 2 m;
                      w \<leftarrow> masked_fill4 w m NInf;
                      view [batch_size * num_heads self, tgt_len, src_len] w
                    }
                | _ \<Rightarrow> None)
          else Some attention_weights)"

text \<open>The softmax, the dropout and the replacement of NaN by zero.\<close>

definition sanitize_nan :: "fl tensor \<Rightarrow> fl tensor" where
  "sanitize_nan attention_probs =
     (let attention_probs_nan_mask = tmap is_nan attention_probs
      in if tensor_any attention_probs_nan_mask
         then masked_fill attention_probs attention_probs_nan_mask (Fin 0)
         else attention_probs)"

text \<open>
  The attention up to \<open>attention_probs\<close>, with what the rest of \<open>forward\<close> needs: the
  probabilities after the softmax, those after dropout and sanitisation, and \<open>v\<close>.
\<close>

definition attention_probs ::
  "attention \<Rightarrow> fl tensor \<Rightarrow> fl tensor list \<Rightarrow> bool tensor option
     \<Rightarrow> (fl tensor \<times> fl tensor \<times> fl tensor) option" where
  "attention_probs self input_and_summary banks key_padding_mask =
     (case shape input_and_summary of
        [len, batch_size, _] \<Rightarrow>
          do {
            (attention_weights, v) \<leftarrow> attention_scores self input_and_summary banks;
            attention_weights \<leftarrow>
              apply_key_padding_mask self batch_size (length banks)
                key_padding_mask attention_weights;
            attention_weights \<leftarrow> softmax_last attention_weights;
            let probs = apply_dropout (attn_dropout_module self) attention_weights;
            Some (attention_weights, sanitize_nan probs, v)
          }
      | _ \<Rightarrow> None)"

text \<open>The aggregation of the values, with the assertion on its shape.\<close>

definition attention_aggregate ::
  "attention \<Rightarrow> fl tensor \<Rightarrow> fl tensor list \<Rightarrow> bool tensor option \<Rightarrow> fl tensor option" where
  "attention_aggregate self input_and_summary banks key_padding_mask =
     (case shape input_and_summary of
        [len, batch_size, _] \<Rightarrow>
          do {
            let seg_length = int len - 1;
            (_, probs, v) \<leftarrow>
              attention_probs self input_and_summary banks key_padding_mask;
            attention \<leftarrow> bmm probs v;
            if map int (shape attention) =
                 [int (batch_size * num_heads self), seg_length + 1, int (head_dim self)]
            then Some attention
            else None
          }
      | _ \<Rightarrow> None)"

text \<open>
  \<open>forward(input_and_summary, state, key_padding_mask)\<close>. It returns the output and the
  state after the call: the new memory is appended to the list the state holds, which
  is the uncapped one.
\<close>

definition forward ::
  "attention \<Rightarrow> fl tensor \<Rightarrow> layer_state \<Rightarrow> bool tensor option
     \<Rightarrow> (fl tensor \<times> layer_state) option" where
  "forward self input_and_summary state key_padding_mask =
     (case shape input_and_summary of
        [len, batch_size, _] \<Rightarrow>
          do {
            let seg_length = int len - 1;
            stored \<leftarrow> memory_banks state;
            let banks = capped_memory_banks self stored;
            attention \<leftarrow> attention_aggregate self input_and_summary banks key_padding_mask;
            attention \<leftarrow> transpose01 attention;
            attention \<leftarrow> view [nat (seg_length + 1), batch_size, embed_dim self] attention;
            output_and_memory \<leftarrow> apply_linear (out_proj self) attention;
            next_m \<leftarrow> slice0 (Some (- 1)) None output_and_memory;
            let next_m = squash_mem self next_m;
            output \<leftarrow> slice0 None (Some (- 1)) output_and_memory;
            Some (output, state\<lparr>memory_banks := Some (stored @ [next_m])\<rparr>)
          }
      | _ \<Rightarrow> None)"

section \<open>AugmentedMemoryTransformerEncoderLayer\<close>

text \<open>
  The layer. What it inherits from \<open>TransformerEncoderLayer\<close>, which is not among the
  sources at hand, is a parameter: the two layer norms, the two linear maps of the
  feed-forward block, the activation and the dropout modules, each a function on
  tensors that may fail, and the flag \<open>normalize_before\<close>.
\<close>

record layer =
  self_attn :: attention
  normalize_before :: bool
  self_attn_layer_norm :: "fl tensor \<Rightarrow> fl tensor option"
  final_layer_norm :: "fl tensor \<Rightarrow> fl tensor option"
  dropout_module :: "fl tensor \<Rightarrow> fl tensor option"
  activation_dropout_module :: "fl tensor \<Rightarrow> fl tensor option"
  activation_fn :: "fl tensor \<Rightarrow> fl tensor option"
  fc1 :: "fl tensor \<Rightarrow> fl tensor option"
  fc2 :: "fl tensor \<Rightarrow> fl tensor option"
  left_context :: int
  right_context :: int

definition summarize_segment :: "fl tensor \<Rightarrow> fl tensor option" where
  "summarize_segment segment = mean_dim0_keepdim segment"

text \<open>
  The first part of the layer's \<open>forward\<close>: the normalisation before the attention,
  the summary query, and the tensor handed to the attention as \<open>input_and_summary\<close>.
\<close>

definition pre_attention_norm :: "layer \<Rightarrow> fl tensor \<Rightarrow> fl tensor option" where
  "pre_attention_norm self x =
     (if normalize_before self then self_attn_layer_norm self x else Some x)"

definition summarization_query :: "layer \<Rightarrow> nat list \<Rightarrow> fl tensor \<Rightarrow> fl tensor option" where
  "summarization_query self dims x =
     (case dims of
        [len, batch_size, x_dim] \<Rightarrow>
          let seg_start = left_context self;
              seg_end = int len - right_context self
          in if seg_start < seg_end
             then do {
                    segment \<leftarrow> slice0 (Some seg_start) (Some seg_end) x;
                    summarize_segment segment
                  }
             else Some (full [1, batch_size, x_dim] (Fin 0))
      | _ \<Rightarrow> None)"

definition layer_attention_input :: "layer \<Rightarrow> fl tensor \<Rightarrow> fl tensor option" where
  "layer_attention_input self x =
     do {
       let dims = shape x;
       x \<leftarrow> pre_attention_norm self x;
       query \<leftarrow> summarization_query self dims x;
       cat0 [x, query]
     }"

text \<open>
  The layer's \<open>forward(x, state, encoder_padding_mask)\<close>; it returns the output and the
  state after the call.
\<close>

definition layer_forward ::
  "layer \<Rightarrow> fl tensor \<Rightarrow> layer_state \<Rightarrow> bool tensor option
     \<Rightarrow> (fl tensor \<times> layer_state) option" where
  "layer_forward self x state encoder_padding_mask =
     do {
       let residual = x;
       let state = (case memory_banks state of
                      None \<Rightarrow> state\<lparr>memory_banks := Some []\<rparr>
                    | Some _ \<Rightarrow> state);
       x \<leftarrow> layer_attention_input self x;
       (x, state) \<leftarrow> forward (self_attn self) x state encoder_padding_mask;
       x \<leftarrow> dropout_module self x;
       x \<leftarrow> bop3 fl_add residual x;
       x \<leftarrow> (if \<not> normalize_before self then self_attn_layer_norm self x else Some x);
       let residual = x;
       x \<leftarrow> (if normalize_before self then final_layer_norm self x else Some x);
       x \<leftarrow> fc1 self x;
       x \<leftarrow> activation_fn self x;
       x \<leftarrow> activation_dropout_module self x;
       x \<leftarrow> fc2 self x;
       x \<leftarrow> dropout_module self x;
       x \<leftarrow> bop3 fl_add residual x;
       x \<leftarrow> (if \<not> normalize_before self then final_layer_norm self x else Some x);
       Some (x, state)
     }"

section \<open>AugmentedMemoryConvTransformerEncoder\<close>

text \<open>
  The encoder. The subsampling of the input up to the dropout (the convolutions, the
  output projection, the positions and \<open>lengths_to_encoder_padding_mask\<close>) is the work
  of the base class \<open>ConvTransformerEncoder\<close> and of a utility module, neither among
  the sources at hand: here it is one parameter, \<open>subsample\<close>, from \<open>src_tokens\<close> and
  \<open>src_lengths\<close> to \<open>x\<close> and \<open>encoder_padding_mask\<close>.
\<close>

record encoder =
  subsample :: "fl tensor \<Rightarrow> int tensor \<Rightarrow> (fl tensor \<times> bool tensor) option"
  transformer_layers :: "layer list"
  left_context_after_stride :: int
  right_context_after_stride :: int

text \<open>The stop of the slice that trims the right context: \<open>-r if r > 0 else None\<close>.\<close>

definition trim_stop :: "encoder \<Rightarrow> int option" where
  "trim_stop self =
     (if right_context_after_stride self > 0 then Some (- right_context_after_stride self)
      else None)"

definition trim_context :: "encoder \<Rightarrow> 'a tensor \<Rightarrow> 'a tensor option" where
  "trim_context self x = slice0 (Some (left_context_after_stride self)) (trim_stop self) x"

text \<open>
  The loop over the layers, from layer \<open>i\<close> on: layer \<open>i\<close> reads and writes \<open>states[i]\<close>
  (an IndexError when the list is too short).
\<close>

fun run_layers ::
  "encoder \<Rightarrow> bool tensor \<Rightarrow> layer list \<Rightarrow> nat \<Rightarrow> fl tensor \<Rightarrow> layer_state list
     \<Rightarrow> (fl tensor \<times> layer_state list) option" where
  "run_layers self encoder_padding_mask [] i x states = Some (x, states)"
| "run_layers self encoder_padding_mask (layer # rest) i x states =
     (if i < length states
      then do {
             (x, st) \<leftarrow> layer_forward layer x (states ! i) (Some encoder_padding_mask);
             trimmed \<leftarrow> trim_context self x;
             run_layers self encoder_padding_mask rest (Suc i) x
               (states[i := st\<lparr>encoder_states := Some trimmed\<rparr>])
           }
      else None)"

text \<open>\<open>(~m).sum(dim=1, keepdim=True).long()\<close> on a 2-D bool tensor.\<close>

definition count_unpadded :: "bool tensor \<Rightarrow> int tensor option" where
  "count_unpadded m =
     (case shape m of
        [a, b] \<Rightarrow>
          Some (mk2 a 1 (\<lambda>i j. int (length (filter (\<lambda>k. \<not> at2 m i k) [0..<b]))))
      | _ \<Rightarrow> None)"

text \<open>
  The encoder's \<open>forward(src_tokens, src_lengths, states)\<close>: the trimmed output of the
  last state, the lengths and the states.
\<close>

definition encoder_forward ::
  "encoder \<Rightarrow> fl tensor \<Rightarrow> int tensor \<Rightarrow> layer_state list option
     \<Rightarrow> (fl tensor option \<times> int tensor \<times> layer_state list) option" where
  "encoder_forward self src_tokens src_lengths states =
     do {
       (x, encoder_padding_mask) \<leftarrow> subsample self src_tokens src_lengths;
       let states = (case states of
                       None \<Rightarrow> replicate (length (transformer_layers self))
                                 \<lparr>memory_banks = None, encoder_states = None\<rparr>
                     | Some ss \<Rightarrow> ss);
       (x, states) \<leftarrow> run_layers self encoder_padding_mask (transformer_layers self) 0 x states;
       m \<leftarrow> slice1 (Some (left_context_after_stride self)) (trim_stop self) encoder_padding_mask;
       lengths \<leftarrow> count_unpadded m;
       if states = [] then None
       else Some (encoder_states (last states), lengths, states)
     }"

section \<open>Well-formed inputs\<close>

text \<open>A well-formed 3-D tensor of a given shape.\<close>

definition is3 :: "'a tensor \<Rightarrow> nat \<Rightarrow> nat \<Rightarrow> nat \<Rightarrow> bool" where
  "is3 t a b c \<longleftrightarrow> wft t \<and> shape t = [a, b, c]"

text \<open>
  What the constructor of \<open>MultiheadAttention\<close> establishes for self-attention: at least
  one head, \<open>head_dim * num_heads = embed_dim\<close>, and four linear layers from
  \<open>embed_dim\<close> to \<open>embed_dim\<close>.
\<close>

definition wf_attention :: "attention \<Rightarrow> bool" where
  "wf_attention self \<longleftrightarrow>
     0 < num_heads self \<and> 0 < head_dim self \<and>
     head_dim self * num_heads self = embed_dim self \<and>
     list_all (\<lambda>l. wf_linear l \<and> in_features l = embed_dim self \<and> out_features l = embed_dim self)
       [q_proj self, k_proj self, v_proj self, out_proj self]"

text \<open>A key padding mask for batch size \<open>b\<close> and segment length \<open>l\<close>, or none.\<close>

definition wf_padding_mask :: "bool tensor option \<Rightarrow> nat \<Rightarrow> nat \<Rightarrow> bool" where
  "wf_padding_mask key_padding_mask b l \<longleftrightarrow>
     (case key_padding_mask of None \<Rightarrow> True | Some kpm \<Rightarrow> wft kpm \<and> shape kpm = [b, l])"

text \<open>Whether the mask marks position \<open>j\<close> of the segment as padding in batch row \<open>b\<close>.\<close>

definition padded :: "bool tensor option \<Rightarrow> nat \<Rightarrow> nat \<Rightarrow> bool" where
  "padded key_padding_mask b j \<longleftrightarrow>
     (case key_padding_mask of None \<Rightarrow> False | Some kpm \<Rightarrow> at2 kpm b j)"

text \<open>What the dropout module makes of the element at flat position \<open>f\<close>.\<close>

definition dropped :: "attention \<Rightarrow> nat \<Rightarrow> fl \<Rightarrow> fl" where
  "dropped self f x = (case attn_dropout_module self of None \<Rightarrow> x | Some m \<Rightarrow> fl_mul x (Fin (m f)))"

text \<open>A score that is a number or \<open>-inf\<close>.\<close>

definition reg :: "fl \<Rightarrow> bool" where
  "reg x \<longleftrightarrow> x \<noteq> NaN \<and> x \<noteq> PInf"

text \<open>
  Successive calls of the attention on one layer state, each with its own input and
  mask: the state a call returns is the state of the next call.
\<close>

fun forward_calls ::
  "attention \<Rightarrow> (fl tensor \<times> bool tensor option) list \<Rightarrow> layer_state
     \<Rightarrow> (fl tensor list \<times> layer_state) option" where
  "forward_calls self [] state = Some ([], state)"
| "forward_calls self ((x, key_padding_mask) # rest) state =
     do {
       (out, state) \<leftarrow> forward self x state key_padding_mask;
       (outs, state) \<leftarrow> forward_calls self rest state;
       Some (out # outs, state)
     }"

text \<open>What a sequence of calls leaves in the state: the length of the stored list.\<close>

definition stored_length :: "(fl tensor list \<times> layer_state) option \<Rightarrow> nat option" where
  "stored_length r =
     (case r of None \<Rightarrow> None | Some (outs, state) \<Rightarrow> map_option length (memory_banks state))"

text \<open>One entry of \<open>attention_probs\<close>, when the computation gets there.\<close>

definition probs_at ::
  "(fl tensor \<times> fl tensor \<times> fl tensor) option \<Rightarrow> nat \<Rightarrow> nat \<Rightarrow> nat \<Rightarrow> fl option" where
  "probs_at r n i j = (case r of None \<Rightarrow> None | Some (_, probs, _) \<Rightarrow> Some (at3 probs n i j))"

section \<open>A small instance\<close>

text \<open>
  One head of dimension one, every projection the identity, the default suppression
  scale \<open>0.5\<close>, \<open>tanh\<close> on the memory, no dropout; the cap on the memory is the
  argument. The input is one frame and its summary query, for a batch of one.
\<close>

definition unit_linear :: linear_layer where
  "unit_linear = \<lparr>in_features = 1, out_features = 1, weight = [[Fin 1]], bias = Some [Fin 0]\<rparr>"

definition example_attention :: "int \<Rightarrow> attention" where
  "example_attention n =
     \<lparr>embed_dim = 1, num_heads = 1, head_dim = 1, scaling = 1,
      q_proj = unit_linear, k_proj = unit_linear, v_proj = unit_linear, out_proj = unit_linear,
      attn_dropout_module = None, std_scale = Some (1 / 2), disable_mem_on_mem_attn = True,
      tanh_on_mem = True, max_memory_size = n\<rparr>"

definition example_input :: "fl tensor" where
  "example_input = \<lparr>shape = [2, 1, 1], data = [Fin 0, Fin 0]\<rparr>"

definition example_memory :: "fl tensor" where
  "example_memory = \<lparr>shape = [1, 1, 1], data = [Fin 0]\<rparr>"

definition example_mask :: "bool tensor" where
  "example_mask = \<lparr>shape = [1, 1], data = [True]\<rparr>"

definition unpadded_mask :: "bool tensor" where
  "unpadded_mask = \<lparr>shape = [1, 1], data = [False]\<rparr>"

definition empty_state :: layer_state where
  "empty_state = \<lparr>memory_banks = Some [], encoder_states = None\<rparr>"

text \<open>The scores of the instance with one memory, before the suppression.\<close>

definition example_scores :: "fl tensor" where
  "example_scores = \<lparr>shape = [1, 2, 2], data = [Fin 0, Fin 0, NInf, Fin 0]\<rparr>"

text \<open>
  A layer around that attention: the layer norm over one feature with weight one and
  bias zero, and the identity for the feed-forward maps, the activation and the
  dropout modules. The argument is \<open>normalize_before\<close>. The frame is a segment of
  length one.
\<close>

definition unit_norm :: layer_norm where
  "unit_norm = \<lparr>normalized_dim = 1, ln_eps = 1 / 10 ^ 5, ln_weight = [Fin 1], ln_bias = [Fin 0]\<rparr>"

definition example_layer :: "bool \<Rightarrow> layer" where
  "example_layer before =
     \<lparr>self_attn = example_attention 1, normalize_before = before,
      self_attn_layer_norm = apply_layer_norm unit_norm,
      final_layer_norm = apply_layer_norm unit_norm,
      dropout_module = Some, activation_dropout_module = Some, activation_fn = Some,
      fc1 = Some, fc2 = Some, left_context = 0, right_context = 0\<rparr>"

definition example_frame :: "fl tensor" where
  "example_frame = \<lparr>shape = [1, 1, 1], data = [Fin 1]\<rparr>"

text \<open>
  The same layer with one row of context on each side, and an encoder of two such
  layers that trims one row on each side. Its front end hands its input on, with the
  mask of a batch of two over four positions: nothing is padded for the first element,
  the last two positions are padded for the second.
\<close>

definition context_layer :: layer where
  "context_layer = (example_layer False)\<lparr>left_context := 1, right_context := 1\<rparr>"

definition context_mask :: "bool tensor" where
  "context_mask =
     \<lparr>shape = [2, 4], data = [False, False, False, False, False, False, True, True]\<rparr>"

definition context_frames :: "fl tensor" where
  "context_frames =
     \<lparr>shape = [4, 2, 1],
      data = [Fin 1, Fin 2, Fin 3, Fin 4, Fin 5, Fin 6, Fin 7, Fin 8]\<rparr>"

definition context_lengths :: "int tensor" where
  "context_lengths = \<lparr>shape = [2], data = [4, 2]\<rparr>"

definition context_encoder :: encoder where
  "context_encoder =
     \<lparr>subsample = (\<lambda>src_tokens src_lengths. Some (src_tokens, context_mask)),
      transformer_layers = [context_layer, context_layer],
      left_context_after_stride = 1, right_context_after_stride = 1\<rparr>"

section \<open>The layers as the encoder drives them\<close>

text \<open>The states the encoder starts from: those given, or a fresh one per layer.\<close>

definition initial_states :: "encoder \<Rightarrow> layer_state list option \<Rightarrow> layer_state list" where
  "initial_states self states =
     (case states of
        None \<Rightarrow> replicate (length (transformer_layers self))
                  \<lparr>memory_banks = None, encoder_states = None\<rparr>
      | Some ss \<Rightarrow> ss)"

text \<open>
  What each layer returns when the layers run in sequence from layer \<open>i\<close> on, every
  layer on the output of the one before it and on its own entry of the states the
  encoder started from: the output and the state of that layer, up to the first layer
  that fails.
\<close>

fun layer_outputs ::
  "bool tensor \<Rightarrow> layer list \<Rightarrow> nat \<Rightarrow> fl tensor \<Rightarrow> layer_state list
     \<Rightarrow> (fl tensor \<times> layer_state) list" where
  "layer_outputs encoder_padding_mask [] i x states = []"
| "layer_outputs encoder_padding_mask (layer # rest) i x states =
     (case layer_forward layer x (states ! i) (Some encoder_padding_mask) of
        None \<Rightarrow> []
      | Some (y, st) \<Rightarrow> (y, st) # layer_outputs encoder_padding_mask rest (Suc i) y states)"

section \<open>Tensors in canonical form\<close>

text \<open>
  A well-formed 3-D tensor is \<open>mk3\<close> of its own elements, so each operation is
  characterised by what it does to \<open>mk3 a b c g\<close>.
\<close>

lemma idx3_lt: "i < a \<Longrightarrow> j < b \<Longrightarrow> k < c \<Longrightarrow> (i * b + j) * c + k < a * b * (c::nat)"
proof -
  assume i: "i < a" and j: "j < b" and k: "k < c"
  have "(i * b + j) * c + k < (i * b + j) * c + c" using k by simp
  also have "\<dots> = (i * b + j + 1) * c" by (simp add: algebra_simps)
  also have "\<dots> \<le> (i * b + b) * c" using j by (intro mult_le_mono1) simp
  also have "\<dots> = (i + 1) * b * c" by (simp add: algebra_simps)
  also have "\<dots> \<le> a * b * c" using i by (intro mult_le_mono1) simp
  finally show ?thesis .
qed

lemma div_add_lt: "r < n \<Longrightarrow> (i * n + r) div n = (i::nat)"
  by simp

lemma idx3_div0: "j < b \<Longrightarrow> k < c \<Longrightarrow> ((i * b + j) * c + k) div (b * (c::nat)) = i"
proof -
  assume j: "j < b" and k: "k < c"
  have lt: "j * c + k < b * c" using idx3_lt[of 0 1 j b k c] j k by simp
  have "(i * b + j) * c + k = i * (b * c) + (j * c + k)" by (simp add: algebra_simps)
  moreover have "(i * (b * c) + (j * c + k)) div (b * c) = i"
    using lt by (rule div_add_lt)
  ultimately show ?thesis by (simp only:)
qed

lemma idx3_div1: "j < b \<Longrightarrow> k < c \<Longrightarrow> ((i * b + j) * c + k) div c mod b = (j::nat)"
  by simp

lemma idx3_mod: "k < c \<Longrightarrow> ((i * b + j) * c + k) mod c = (k::nat)"
  by simp

lemma shape_mk3 [simp]: "shape (mk3 a b c g) = [a, b, c]"
  by (simp add: mk3_def)

lemma wft_mk3 [simp]: "wft (mk3 a b c g)"
  by (simp add: mk3_def wft_def)

lemma at3_mk3 [simp]: "i < a \<Longrightarrow> j < b \<Longrightarrow> k < c \<Longrightarrow> at3 (mk3 a b c g) i j k = g i j k"
  using idx3_lt[of i a j b k c]
  by (simp add: at3_def mk3_def idx3_div0 del: mult_Suc_right)

lemma row3_mk3 [simp]: "i < a \<Longrightarrow> j < b \<Longrightarrow> row3 (mk3 a b c g) i j = map (g i j) [0..<c]"
  by (simp add: row3_def)

lemma idx3_parts:
  assumes "f < a * b * (c::nat)"
  shows "f div (b * c) < a" "f div c mod b < b" "f mod c < c"
proof -
  from assms have c: "0 < c" and b: "0 < b" by (cases "c = 0"; cases "b = 0"; simp)+
  show "f mod c < c" using c by simp
  show "f div c mod b < b" using b by simp
  have "f < a * (b * c)" using assms by (simp add: mult.assoc)
  then show "f div (b * c) < a" using b c by (simp add: less_mult_imp_div_less mult.commute)
qed

lemma idx3_recompose: "0 < b \<Longrightarrow> (f div (b * c) * b + f div c mod b) * c + f mod c = (f::nat)"
proof -
  assume b: "0 < b"
  have "f div (b * c) = f div c div b" by (metis div_mult2_eq mult.commute)
  then have "f div (b * c) * b + f div c mod b = f div c" by (simp add: mult.commute)
  then show ?thesis by simp
qed

lemma mk3_cong:
  "(\<And>i j k. i < a \<Longrightarrow> j < b \<Longrightarrow> k < c \<Longrightarrow> g i j k = h i j k) \<Longrightarrow> mk3 a b c g = mk3 a b c h"
proof -
  assume eq: "\<And>i j k. i < a \<Longrightarrow> j < b \<Longrightarrow> k < c \<Longrightarrow> g i j k = h i j k"
  have "map (\<lambda>f. g (f div (b * c)) (f div c mod b) (f mod c)) [0..<a * b * c]
      = map (\<lambda>f. h (f div (b * c)) (f div c mod b) (f mod c)) [0..<a * b * c]"
  proof (rule map_cong[OF refl])
    fix f assume "f \<in> set [0..<a * b * c]"
    then have "f < a * b * c" by simp
    then show "g (f div (b * c)) (f div c mod b) (f mod c) = h (f div (b * c)) (f div c mod b) (f mod c)"
      by (intro eq idx3_parts)
  qed
  then show ?thesis by (simp add: mk3_def)
qed

lemma mk3_at3: "wft t \<Longrightarrow> shape t = [a, b, c] \<Longrightarrow> mk3 a b c (at3 t) = t"
proof -
  assume w: "wft t" and s: "shape t = [a, b, c]"
  have len: "length (data t) = a * b * c" using w s by (simp add: wft_def)
  have "map (\<lambda>f. at3 t (f div (b * c)) (f div c mod b) (f mod c)) [0..<a * b * c] = data t"
  proof (rule nth_equalityI)
    show "length (map (\<lambda>f. at3 t (f div (b * c)) (f div c mod b) (f mod c)) [0..<a * b * c]) = length (data t)"
      using len by simp
  next
    fix f assume "f < length (map (\<lambda>f. at3 t (f div (b * c)) (f div c mod b) (f mod c)) [0..<a * b * c])"
    then have f: "f < a * b * c" by simp
    then have "0 < b" by (cases "b = 0") simp_all
    then show "map (\<lambda>f. at3 t (f div (b * c)) (f div c mod b) (f mod c)) [0..<a * b * c] ! f = data t ! f"
      using f s by (simp add: at3_def idx3_recompose del: mult_Suc_right)
  qed
  then show ?thesis using s by (simp add: mk3_def)
qed

lemma tmap_mk3 [simp]: "tmap f (mk3 a b c g) = mk3 a b c (\<lambda>i j k. f (g i j k))"
  by (simp add: tmap_def mk3_def)

lemma full3 [simp]: "full [a, b, c] v = mk3 a b c (\<lambda>i j k. v)"
  by (simp add: full_def mk3_def map_replicate_const mult.assoc)

lemma bidx_lt: "i < n \<Longrightarrow> bidx n i = i"
  by (simp add: bidx_def)

lemma bdim_same [simp]: "bdim a a = Some a"
  by (simp add: bdim_def)

lemma bdim_one [simp]: "bdim a 1 = Some a" "bdim a (Suc 0) = Some a"
  by (simp_all add: bdim_def)

lemma bop3_mk3_same [simp]:
  "bop3 f (mk3 a b c g) (mk3 a b c h) = Some (mk3 a b c (\<lambda>i j k. f (g i j k) (h i j k)))"
proof -
  have "mk3 a b c (\<lambda>i j k. f (at3 (mk3 a b c g) (bidx a i) (bidx b j) (bidx c k))
                               (at3 (mk3 a b c h) (bidx a i) (bidx b j) (bidx c k)))
      = mk3 a b c (\<lambda>i j k. f (g i j k) (h i j k))"
    by (rule mk3_cong) (simp add: bidx_lt)
  then show ?thesis by (simp add: bop3_def)
qed

lemma bop3_mk3_keepdim [simp]:
  "bop3 f (mk3 a b c g) (mk3 a b (Suc 0) h) = Some (mk3 a b c (\<lambda>i j k. f (g i j k) (h i j 0)))"
proof -
  have "mk3 a b c (\<lambda>i j k. f (at3 (mk3 a b c g) (bidx a i) (bidx b j) (bidx c k))
                               (at3 (mk3 a b (Suc 0) h) (bidx a i) (bidx b j) (bidx (Suc 0) k)))
      = mk3 a b c (\<lambda>i j k. f (g i j k) (h i j 0))"
    by (rule mk3_cong) (simp add: bidx_lt, simp add: bidx_def)
  then show ?thesis by (simp add: bop3_def)
qed

lemma where3_mk3 [simp]:
  "where3 (mk3 a b c p) (mk3 a b c g) (mk3 a b c h)
     = Some (mk3 a b c (\<lambda>i j k. if p i j k then g i j k else h i j k))"
  by (simp add: where3_def)

lemma sum_last_mk3 [simp]:
  "sum_last_keepdim (mk3 a b c g) = Some (mk3 a b (Suc 0) (\<lambda>i j k. fl_sum (map (g i j) [0..<c])))"
proof -
  have "mk3 a b (Suc 0) (\<lambda>i j k. fl_sum (row3 (mk3 a b c g) i j))
      = mk3 a b (Suc 0) (\<lambda>i j k. fl_sum (map (g i j) [0..<c]))"
    by (rule mk3_cong) simp
  then show ?thesis by (simp add: sum_last_keepdim_def)
qed

lemma softmax_last_mk3 [simp]:
  "softmax_last (mk3 a b c g) = Some (mk3 a b c (\<lambda>i j k. softmax_row (map (g i j) [0..<c]) ! k))"
proof -
  have "mk3 a b c (\<lambda>i j k. softmax_row (row3 (mk3 a b c g) i j) ! k)
      = mk3 a b c (\<lambda>i j k. softmax_row (map (g i j) [0..<c]) ! k)"
    by (rule mk3_cong) simp
  then show ?thesis by (simp add: softmax_last_def)
qed

lemma length_softmax_row [simp]: "length (softmax_row xs) = length xs"
  by (simp add: softmax_row_def Let_def)

lemma count_nonzero:
  "fl_sum (map (\<lambda>x. bool_to_float (to_bool x)) p)
     = Fin (real (length (filter (\<lambda>x. x \<noteq> Fin 0) p)))"
  by (induction p) (simp_all add: fl_sum_def bool_to_float_def to_bool_def)

lemma map_nth_upt: "length p = k \<Longrightarrow> map (\<lambda>l. F (p ! l)) [0..<k] = map F p"
  by (simp add: list_eq_iff_nth_eq)

lemma row_threshold_unfold:
  assumes "length p = k"
  shows "row_threshold p s =
     fl_sub (fl_div (fl_sum (map ((!) p) [0..<k]))
           (fl_add (fl_sum (map (\<lambda>l. bool_to_float (to_bool (p ! l))) [0..<k])) eps8))
      (fl_mul (Fin s)
        (fl_sqrt
          (fl_div
            (fl_sum (map (\<lambda>l. if to_bool (p ! l)
                 then fl_mul (fl_sub (p ! l) (fl_div (fl_sum (map ((!) p) [0..<k]))
                          (fl_add (fl_sum (map (\<lambda>l. bool_to_float (to_bool (p ! l))) [0..<k])) eps8)))
                        (fl_sub (p ! l) (fl_div (fl_sum (map ((!) p) [0..<k]))
                          (fl_add (fl_sum (map (\<lambda>l. bool_to_float (to_bool (p ! l))) [0..<k])) eps8)))
                 else Fin 0) [0..<k]))
            (fl_add (fl_sub (fl_sum (map (\<lambda>l. bool_to_float (to_bool (p ! l))) [0..<k])) (Fin 1)) eps8))))"
proof -
  have a: "map ((!) p) [0..<k] = p" using assms by (simp add: list_eq_iff_nth_eq)
  have b: "map (\<lambda>l. bool_to_float (to_bool (p ! l))) [0..<k] = map (\<lambda>x. bool_to_float (to_bool x)) p"
    using assms by (rule map_nth_upt)
  have c: "\<And>m. map (\<lambda>l. if to_bool (p ! l) then fl_mul (fl_sub (p ! l) m) (fl_sub (p ! l) m) else Fin 0) [0..<k]
         = map (\<lambda>x. if x \<noteq> Fin 0 then fl_mul (fl_sub x m) (fl_sub x m) else Fin 0) p"
    using assms by (simp add: list_eq_iff_nth_eq to_bool_def)
  show ?thesis
    unfolding a b c count_nonzero by (simp add: row_threshold_def Let_def)
qed

lemma attention_suppression_mk3:
  "attention_suppression (mk3 n q k g) s =
     Some (mk3 n q k (\<lambda>i j l.
       if fl_lt (softmax_row (map (g i j) [0..<k]) ! l)
                (row_threshold (softmax_row (map (g i j) [0..<k])) s)
       then NInf else g i j l))"
proof -
  have len: "\<And>i j. length (softmax_row (map (g i j) [0..<k])) = k" by simp
  show ?thesis
    unfolding attention_suppression_def row_threshold_unfold[OF len]
    by (simp add: Let_def)
qed

section \<open>The suppression filter against its specification\<close>

lemma attention_suppression_wft:
  assumes "wft S" and "shape S = [n, q, k]"
  shows "attention_suppression S s =
     Some (mk3 n q k (\<lambda>i j l.
       if fl_lt (softmax_row (row3 S i j) ! l) (row_threshold (softmax_row (row3 S i j)) s)
       then NInf else at3 S i j l))"
proof -
  have S: "S = mk3 n q k (at3 S)" using assms by (simp add: mk3_at3)
  have r: "\<And>i j. row3 S i j = map (at3 S i j) [0..<k]" using assms by (simp add: row3_def)
  show ?thesis unfolding r by (subst S) (rule attention_suppression_mk3)
qed

section \<open>The suppression filter in an arithmetic that rounds\<close>

lemma sum_last_with_mk3 [simp]:
  "sum_last_keepdim_with rnd (mk3 a b c g)
     = Some (mk3 a b (Suc 0) (\<lambda>i j k. sum_with rnd (map (g i j) [0..<c])))"
proof -
  have "mk3 a b (Suc 0) (\<lambda>i j k. sum_with rnd (row3 (mk3 a b c g) i j))
      = mk3 a b (Suc 0) (\<lambda>i j k. sum_with rnd (map (g i j) [0..<c]))"
    by (rule mk3_cong) simp
  then show ?thesis by (simp add: sum_last_keepdim_with_def)
qed

lemma softmax_last_with_mk3 [simp]:
  "softmax_last_with rnd (mk3 a b c g)
     = Some (mk3 a b c (\<lambda>i j k. softmax_row_with rnd (map (g i j) [0..<c]) ! k))"
proof -
  have "mk3 a b c (\<lambda>i j k. softmax_row_with rnd (row3 (mk3 a b c g) i j) ! k)
      = mk3 a b c (\<lambda>i j k. softmax_row_with rnd (map (g i j) [0..<c]) ! k)"
    by (rule mk3_cong) simp
  then show ?thesis by (simp add: softmax_last_with_def)
qed

lemma length_softmax_row_with [simp]: "length (softmax_row_with rnd xs) = length xs"
  by (simp add: softmax_row_with_def Let_def)

lemma count_nonzero_with:
  assumes "\<forall>m\<le>k. rnd (real m) = Fin (real m)" and "length p \<le> k"
  shows "sum_with rnd (map (\<lambda>x. bool_to_float (to_bool x)) p)
     = Fin (real (length (filter (\<lambda>x. x \<noteq> Fin 0) p)))"
  using assms(2)
proof (induction p)
  case Nil
  then show ?case by (simp add: sum_with_def)
next
  case (Cons x p)
  let ?c = "length (filter (\<lambda>x. x \<noteq> Fin 0) p)"
  have ih: "sum_with rnd (map (\<lambda>x. bool_to_float (to_bool x)) p) = Fin (real ?c)"
    using Cons by simp
  have c: "?c \<le> length p" by (rule length_filter_le)
  have le: "?c \<le> k" "Suc ?c \<le> k"
  proof -
    have "Suc (length p) \<le> k" using Cons.prems by simp
    with c show "?c \<le> k" "Suc ?c \<le> k" by linarith+
  qed
  have r0: "rnd (real ?c) = Fin (real ?c)" using assms(1) le(1) by blast
  have r1: "rnd (1 + real ?c) = Fin (1 + real ?c)"
    using assms(1)[rule_format, OF le(2)] by (simp add: add.commute)
  have "sum_with rnd (map (\<lambda>x. bool_to_float (to_bool x)) (x # p))
      = add_with rnd (bool_to_float (to_bool x)) (Fin (real ?c))"
    using ih by (simp add: sum_with_def)
  also have "\<dots> = Fin (real (length (filter (\<lambda>x. x \<noteq> Fin 0) (x # p))))"
    using r0 r1 by (simp add: add_with_def fl_round_def bool_to_float_def to_bool_def)
  finally show ?case .
qed

lemma row_threshold_with_unfold:
  assumes "length p = k" and "\<forall>m\<le>k. rnd (real m) = Fin (real m)"
  shows "row_threshold_with rnd p s =
     sub_with rnd (div_with rnd (sum_with rnd (map ((!) p) [0..<k]))
           (add_with rnd (sum_with rnd (map (\<lambda>l. bool_to_float (to_bool (p ! l))) [0..<k])) (fl_round rnd eps8)))
      (mul_with rnd (fl_round rnd (Fin s))
        (sqrt_with rnd
          (div_with rnd
            (sum_with rnd (map (\<lambda>l. if to_bool (p ! l)
                 then mul_with rnd (sub_with rnd (p ! l) (div_with rnd (sum_with rnd (map ((!) p) [0..<k]))
                          (add_with rnd (sum_with rnd (map (\<lambda>l. bool_to_float (to_bool (p ! l))) [0..<k])) (fl_round rnd eps8))))
                        (sub_with rnd (p ! l) (div_with rnd (sum_with rnd (map ((!) p) [0..<k]))
                          (add_with rnd (sum_with rnd (map (\<lambda>l. bool_to_float (to_bool (p ! l))) [0..<k])) (fl_round rnd eps8))))
                 else Fin 0) [0..<k]))
            (add_with rnd (sub_with rnd (sum_with rnd (map (\<lambda>l. bool_to_float (to_bool (p ! l))) [0..<k])) (Fin 1)) (fl_round rnd eps8)))))"
proof -
  have a: "map ((!) p) [0..<k] = p" using assms(1) by (simp add: list_eq_iff_nth_eq)
  have b: "map (\<lambda>l. bool_to_float (to_bool (p ! l))) [0..<k] = map (\<lambda>x. bool_to_float (to_bool x)) p"
    using assms(1) by (rule map_nth_upt)
  have c: "\<And>m. map (\<lambda>l. if to_bool (p ! l) then mul_with rnd (sub_with rnd (p ! l) m) (sub_with rnd (p ! l) m) else Fin 0) [0..<k]
         = map (\<lambda>x. if x \<noteq> Fin 0 then mul_with rnd (sub_with rnd x m) (sub_with rnd x m) else Fin 0) p"
    using assms(1) by (simp add: list_eq_iff_nth_eq to_bool_def)
  have n: "sum_with rnd (map (\<lambda>x. bool_to_float (to_bool x)) p)
     = Fin (real (length (filter (\<lambda>x. x \<noteq> Fin 0) p)))"
    using assms by (intro count_nonzero_with[where k=k]) simp_all
  show ?thesis
    unfolding a b c n by (simp add: row_threshold_with_def Let_def)
qed

lemma attention_suppression_with_mk3:
  assumes "\<forall>m\<le>k. rnd (real m) = Fin (real m)"
  shows "attention_suppression_with rnd (mk3 n q k g) s =
     Some (mk3 n q k (\<lambda>i j l.
       if fl_lt (softmax_row_with rnd (map (g i j) [0..<k]) ! l)
                (row_threshold_with rnd (softmax_row_with rnd (map (g i j) [0..<k])) s)
       then NInf else g i j l))"
proof -
  have len: "\<And>i j. length (softmax_row_with rnd (map (g i j) [0..<k])) = k" by simp
  show ?thesis
    unfolding attention_suppression_with_def row_threshold_with_unfold[OF len assms]
    by (simp add: Let_def)
qed

lemma attention_suppression_with_wft:
  assumes "wft S" and "shape S = [n, q, k]" and "\<forall>m\<le>k. rnd (real m) = Fin (real m)"
  shows "attention_suppression_with rnd S s =
     Some (mk3 n q k (\<lambda>i j l.
       if fl_lt (softmax_row_with rnd (row3 S i j) ! l)
                (row_threshold_with rnd (softmax_row_with rnd (row3 S i j)) s)
       then NInf else at3 S i j l))"
proof -
  have S: "S = mk3 n q k (at3 S)" using assms by (simp add: mk3_at3)
  have r: "\<And>i j. row3 S i j = map (at3 S i j) [0..<k]" using assms by (simp add: row3_def)
  show ?thesis unfolding r by (subst S) (rule attention_suppression_with_mk3[OF assms(3)])
qed

text \<open>Without rounding it is the filter of the attention above.\<close>

lemma fl_round_exact [simp]: "fl_round Fin x = x"
  by (cases x) (simp_all add: fl_round_def)

lemma sum_with_exact [simp]: "sum_with Fin = fl_sum"
  by (rule ext) (simp add: sum_with_def fl_sum_def add_with_def [abs_def])

lemma softmax_row_with_exact [simp]: "softmax_row_with Fin = softmax_row"
  by (rule ext)
     (simp add: softmax_row_with_def softmax_row_def exp_with_def sub_with_def div_with_def)

lemma sum_last_keepdim_with_exact [simp]: "sum_last_keepdim_with Fin = sum_last_keepdim"
  by (rule ext) (simp add: sum_last_keepdim_with_def sum_last_keepdim_def split: list.splits)

lemma softmax_last_with_exact [simp]: "softmax_last_with Fin = softmax_last"
  by (rule ext) (simp add: softmax_last_with_def softmax_last_def split: list.splits)

lemma attention_suppression_with_exact:
  "attention_suppression_with Fin S s = attention_suppression S s"
  by (simp add: attention_suppression_with_def attention_suppression_def
      add_with_def [abs_def] sub_with_def [abs_def] mul_with_def [abs_def]
      div_with_def [abs_def] sqrt_with_def [abs_def])

text \<open>
  The instance: \<open>exp (-1000)\<close> underflows, so the probabilities of the row are a one
  and nine zeros, one of them is counted, and the threshold is just below \<open>0.99995\<close>.
\<close>

lemma exp_underflow: "exp (- 1000 :: real) \<le> 1 / 2 ^ 150"
proof -
  have "(2::real) \<le> exp 1" using exp_ge_add_one_self[of "1::real"] by simp
  then have "(2::real) ^ 150 \<le> exp 1 ^ 150" by (intro power_mono) simp_all
  also have "\<dots> = exp (real (150::nat) * 1)" by (rule exp_of_nat_mult[symmetric])
  also have "\<dots> \<le> exp (1000 :: real)" by simp
  finally have a: "(2::real) ^ 150 \<le> exp 1000" .
  have "1 / exp (1000::real) \<le> 1 / 2 ^ 150"
    by (rule divide_left_mono[OF a]) simp_all
  moreover have "exp (- 1000 :: real) = 1 / exp 1000"
    by (simp only: exp_minus inverse_eq_divide)
  ultimately show ?thesis by (simp only:)
qed

lemma flush_small: "flush_to_zero (exp (- 1000)) = Fin 0"
  using exp_underflow by (simp add: flush_to_zero_def)

lemma flush_nat: "flush_to_zero (real m) = Fin (real m)"
  by (cases m) (simp_all add: flush_to_zero_def)

lemma flush_zero: "flush_to_zero 0 = Fin 0"
  by (simp add: flush_to_zero_def)

lemma flush_one: "flush_to_zero 1 = Fin 1"
  by (simp add: flush_to_zero_def)

lemma flush_neg: "flush_to_zero (- 1000) = Fin (- 1000)"
  by (simp add: flush_to_zero_def)

lemma sub_flush [simp]:
  "sub_with flush_to_zero (Fin 0) (Fin 0) = Fin 0"
  "sub_with flush_to_zero (Fin (- 1000)) (Fin 0) = Fin (- 1000)"
  by (simp_all add: sub_with_def fl_sub_def fl_round_def flush_zero flush_neg)

lemma exp_flush [simp]:
  "exp_with flush_to_zero (Fin 0) = Fin 1"
  "exp_with flush_to_zero (Fin (- 1000)) = Fin 0"
  by (simp_all add: exp_with_def fl_round_def flush_one flush_small)

lemma add_flush [simp]:
  "add_with flush_to_zero (Fin 0) (Fin 0) = Fin 0"
  "add_with flush_to_zero (Fin 1) (Fin 0) = Fin 1"
  by (simp_all add: add_with_def fl_round_def flush_one flush_zero)

lemma div_flush [simp]:
  "div_with flush_to_zero (Fin 0) (Fin 1) = Fin 0"
  "div_with flush_to_zero (Fin 1) (Fin 1) = Fin 1"
  by (simp_all add: div_with_def fl_round_def flush_one flush_zero)

lemma max_sparse: "fl_maximum sparse_row = Fin 0"
  by (simp add: sparse_row_def fl_max_def)

lemma softmax_sparse: "softmax_row_with flush_to_zero sparse_row = sparse_probs"
  unfolding softmax_row_with_def max_sparse
  by (simp add: sparse_row_def sparse_probs_def Let_def sum_with_def)

lemma flush_keep: "1 / 2 ^ 150 < \<bar>a\<bar> \<Longrightarrow> flush_to_zero a = Fin a"
  by (simp add: flush_to_zero_def)

lemma threshold_sparse:
  "row_threshold_with flush_to_zero sparse_probs (1 / 2) = Fin (99995000 / 100000001)"
proof -
  let ?f = flush_to_zero
  have n: "Fin (real (length (filter (\<lambda>x. x \<noteq> Fin 0) sparse_probs))) = Fin 1"
    by (simp add: sparse_probs_def)
  have s: "sum_with ?f sparse_probs = Fin 1"
    by (simp add: sparse_probs_def sum_with_def)
  have e: "fl_round ?f eps8 = Fin (1 / 100000000)"
    by (simp add: fl_round_def eps8_def flush_keep)
  have h: "fl_round ?f (Fin (1 / 2)) = Fin (1 / 2)"
    by (simp add: fl_round_def flush_keep)
  have d1: "add_with ?f (Fin 1) (Fin (1 / 100000000)) = Fin (100000001 / 100000000)"
    by (simp add: add_with_def fl_round_def flush_keep)
  have mu: "div_with ?f (Fin 1) (Fin (100000001 / 100000000)) = Fin (100000000 / 100000001)"
    by (simp add: div_with_def fl_round_def flush_keep)
  have de: "sub_with ?f (Fin 1) (Fin (100000000 / 100000001)) = Fin (1 / 100000001)"
    by (simp add: sub_with_def fl_sub_def fl_round_def flush_keep)
  have sq: "mul_with ?f (Fin (1 / 100000001)) (Fin (1 / 100000001))
      = Fin (1 / 10000000200000001)"
    by (simp add: mul_with_def fl_round_def flush_keep)
  have sm: "add_with ?f (Fin (1 / 10000000200000001)) (Fin 0) = Fin (1 / 10000000200000001)"
    by (simp add: add_with_def fl_round_def flush_keep)
  have z: "sub_with ?f (Fin 1) (Fin 1) = Fin 0"
    by (simp add: sub_with_def fl_sub_def fl_round_def flush_zero)
  have d2: "add_with ?f (Fin 0) (Fin (1 / 100000000)) = Fin (1 / 100000000)"
    by (simp add: add_with_def fl_round_def flush_keep)
  have va: "div_with ?f (Fin (1 / 10000000200000001)) (Fin (1 / 100000000))
      = Fin (100000000 / 10000000200000001)"
    by (simp add: div_with_def fl_round_def flush_keep)
  have "(10000 / 100000001 :: real)\<^sup>2 = 100000000 / 10000000200000001"
    by (simp add: power2_eq_square)
  then have rt: "sqrt (100000000 / 10000000200000001) = 10000 / 100000001"
    by (intro real_sqrt_unique) simp_all
  have sd: "sqrt_with ?f (Fin (100000000 / 10000000200000001)) = Fin (10000 / 100000001)"
    unfolding sqrt_with_def by (simp add: rt fl_round_def flush_keep)
  have sc: "mul_with ?f (Fin (1 / 2)) (Fin (10000 / 100000001)) = Fin (5000 / 100000001)"
    by (simp add: mul_with_def fl_round_def flush_keep)
  have th: "sub_with ?f (Fin (100000000 / 100000001)) (Fin (5000 / 100000001))
      = Fin (99995000 / 100000001)"
    by (simp add: sub_with_def fl_sub_def fl_round_def flush_keep)
  have v: "sum_with ?f (map (\<lambda>x. if x \<noteq> Fin 0
                 then mul_with ?f (sub_with ?f x (Fin (100000000 / 100000001)))
                        (sub_with ?f x (Fin (100000000 / 100000001)))
                 else Fin 0) sparse_probs) = Fin (1 / 10000000200000001)"
    by (simp add: sparse_probs_def sum_with_def de sq sm)
  show ?thesis
    unfolding row_threshold_with_def Let_def n s e h d1 mu v z d2 va sd sc th ..
qed

lemma sparse_probs_nth: "l < 10 \<Longrightarrow> sparse_probs ! l = (if l = 0 then Fin 1 else Fin 0)"
proof -
  assume l: "l < 10"
  have "sparse_probs = map (\<lambda>l. if l = 0 then Fin 1 else Fin 0) [0..<10]"
    by (simp add: sparse_probs_def upt_conv_Cons)
  then have "sparse_probs ! l = map (\<lambda>l. if l = 0 then Fin 1 else Fin 0) [0..<10] ! l"
    by (simp only:)
  also have "\<dots> = (if l = 0 then Fin 1 else Fin 0)" using l by (simp del: upt_Suc)
  finally show ?thesis .
qed

lemma sparse_scores_wf: "wft sparse_scores" "shape sparse_scores = [1, 1, 10]"
  by (simp_all add: wft_def sparse_scores_def sparse_row_def)

lemma sparse_scores_row: "row3 sparse_scores 0 0 = sparse_row"
  by (simp add: row3_def at3_def sparse_scores_def sparse_row_def upt_conv_Cons)

lemma sparse_scores_zero: "at3 sparse_scores 0 0 0 = Fin 0"
  by (simp add: at3_def sparse_scores_def sparse_row_def)

text \<open>
  Claim C2. On a score tensor of shape \<open>(batch * heads, query_len, key_len)\<close> the filter
  returns a tensor of the same shape, whatever the rounding of the arithmetic, provided
  the counts \<open>0, \<dots>, key_len\<close> are stored exactly (in single precision: up to
  \<open>2 ^ 24\<close>). With \<open>p\<close> the softmax of a query row as that arithmetic computes it, and
  the threshold of the row computed from \<open>p\<close> as the specification says
  (\<open>row_threshold_with\<close>: the number of non-zero probabilities, the mean, the variance
  over the non-zero entries, the mean minus \<open>s\<close> times the standard deviation), an entry
  whose probability is strictly below the threshold is \<open>-inf\<close> in the result, and every
  other entry is the score unchanged. In the instance \<open>exp (-1000)\<close> underflows, one
  probability is not zero, and the nine scores \<open>-1000\<close> are suppressed.
\<close>

theorem attention_suppression_threshold:
  assumes "wft S" and "shape S = [n, q, k]" and "\<forall>m\<le>k. rnd (real m) = Fin (real m)"
  shows "\<exists>R. attention_suppression_with rnd S s = Some R \<and> wft R \<and> shape R = shape S \<and>
           (\<forall>i<n. \<forall>j<q. \<forall>l<k.
              at3 R i j l =
                (if fl_lt (softmax_row_with rnd (row3 S i j) ! l)
                          (row_threshold_with rnd (softmax_row_with rnd (row3 S i j)) s)
                 then NInf else at3 S i j l))"
  using assms by (simp add: attention_suppression_with_wft)

theorem attention_suppression_threshold_witness:
  "attention_suppression_with flush_to_zero sparse_scores (1 / 2)
     = Some \<lparr>shape = [1, 1, 10],
             data = [Fin 0, NInf, NInf, NInf, NInf, NInf, NInf, NInf, NInf, NInf]\<rparr>"
proof -
  have r: "\<forall>m\<le>10. flush_to_zero (real m) = Fin (real m)" by (simp add: flush_nat)
  from attention_suppression_threshold[OF sparse_scores_wf r, of "1 / 2"] obtain R where
    R: "attention_suppression_with flush_to_zero sparse_scores (1 / 2) = Some R"
    and w: "wft R" "shape R = shape sparse_scores"
    and e: "\<forall>i<1. \<forall>j<1. \<forall>l<10. at3 R i j l =
                (if fl_lt (softmax_row_with flush_to_zero (row3 sparse_scores i j) ! l)
                          (row_threshold_with flush_to_zero
                             (softmax_row_with flush_to_zero (row3 sparse_scores i j)) (1 / 2))
                 then NInf else at3 sparse_scores i j l)"
    by (elim exE conjE)
  have s: "shape R = [1, 1, 10]" using w(2) sparse_scores_wf(2) by simp
  have "mk3 1 1 10 (at3 R) = mk3 1 1 10 (\<lambda>i j l. if l = 0 then Fin 0 else NInf)"
  proof (rule mk3_cong)
    fix i j l :: nat assume i: "i < 1" and j: "j < 1" and l: "l < 10"
    have "at3 R 0 0 l =
        (if fl_lt (sparse_probs ! l) (Fin (99995000 / 100000001)) then NInf
         else at3 sparse_scores 0 0 l)"
      using e[rule_format, of 0 0 l] l
      by (simp add: sparse_scores_row softmax_sparse threshold_sparse)
    then have "at3 R 0 0 l = (if l = 0 then Fin 0 else NInf)"
      using l by (simp add: sparse_probs_nth sparse_scores_zero)
    then show "at3 R i j l = (if l = 0 then Fin 0 else NInf)" using i j by simp
  qed
  then have "R = mk3 1 1 10 (\<lambda>i j l. if l = 0 then Fin 0 else NInf)"
    using mk3_at3[OF w(1) s] by simp
  also have "\<dots> = \<lparr>shape = [1, 1, 10],
             data = [Fin 0, NInf, NInf, NInf, NInf, NInf, NInf, NInf, NInf, NInf]\<rparr>"
    by (simp add: mk3_def upt_conv_Cons)
  finally show ?thesis using R by simp
qed

text \<open>
  Claim C6. An entry that is \<open>-inf\<close> after one application of the filter is \<open>-inf\<close>
  after a second application with the same scale.
\<close>

theorem attention_suppression_twice:
  assumes "wft S" and "shape S = [n, q, k]"
  shows "\<exists>R R'. attention_suppression S s = Some R \<and> attention_suppression R s = Some R' \<and>
           (\<forall>i<n. \<forall>j<q. \<forall>l<k. at3 R i j l = NInf \<longrightarrow> at3 R' i j l = NInf)"
proof -
  let ?R = "mk3 n q k (\<lambda>i j l.
       if fl_lt (softmax_row (row3 S i j) ! l) (row_threshold (softmax_row (row3 S i j)) s)
       then NInf else at3 S i j l)"
  have 1: "attention_suppression S s = Some ?R" using assms by (rule attention_suppression_wft)
  have 2: "attention_suppression ?R s = Some (mk3 n q k (\<lambda>i j l.
       if fl_lt (softmax_row (row3 ?R i j) ! l) (row_threshold (softmax_row (row3 ?R i j)) s)
       then NInf else at3 ?R i j l))"
    by (rule attention_suppression_wft) simp_all
  have 3: "\<forall>i<n. \<forall>j<q. \<forall>l<k. at3 ?R i j l = NInf \<longrightarrow>
      at3 (mk3 n q k (\<lambda>i j l.
       if fl_lt (softmax_row (row3 ?R i j) ! l) (row_threshold (softmax_row (row3 ?R i j)) s)
       then NInf else at3 ?R i j l)) i j l = NInf"
    by simp
  show ?thesis using 1 2 3 by blast
qed

theorem attention_suppression_twice_witness:
  "\<exists>R R'. attention_suppression (mk3 1 1 2 (\<lambda>i j k. if k = 0 then Fin 0 else NInf)) (1 / 2) = Some R
       \<and> attention_suppression R (1 / 2) = Some R'
       \<and> at3 R 0 0 1 = NInf \<and> at3 R' 0 0 1 = NInf"
proof -
  let ?S = "mk3 1 1 2 (\<lambda>i j k. if k = 0 then Fin 0 else NInf)"
  have w: "wft ?S" and s: "shape ?S = [1, 1, 2]" by simp_all
  from attention_suppression_twice[OF w s, of "1 / 2"] obtain R R' where
    R: "attention_suppression ?S (1 / 2) = Some R" "attention_suppression R (1 / 2) = Some R'"
    and keep: "\<forall>i<1. \<forall>j<1. \<forall>l<2. at3 R i j l = NInf \<longrightarrow> at3 R' i j l = NInf"
    by blast
  have "at3 R 0 0 1 = NInf" using R(1) unfolding attention_suppression_wft[OF w s] by auto
  moreover from this have "at3 R' 0 0 1 = NInf" using keep by simp
  ultimately show ?thesis using R by blast
qed

section \<open>Slices, concatenation and the other operations\<close>

lemma is3_mk3 [simp]: "is3 (mk3 a b c g) a' b' c' \<longleftrightarrow> a = a' \<and> b = b' \<and> c = c'"
  by (auto simp: is3_def)

lemma is3_eq: "is3 t a b c \<Longrightarrow> t = mk3 a b c (at3 t)"
  by (simp add: is3_def mk3_at3)

lemma is3_length: "is3 t a b c \<Longrightarrow> length (data t) = a * b * c"
  by (simp add: is3_def wft_def)

lemma py_index_le: "py_index i n \<le> n"
  by (auto simp: py_index_def max_def)

lemma py_bounds_drop_last [simp]: "py_bounds None (Some (- 1)) n = (0, n - 1)"
  by (auto simp: py_bounds_def py_index_def)

lemma py_bounds_last [simp]: "py_bounds (Some (- 1)) None n = (n - 1, n)"
  by (auto simp: py_bounds_def py_index_def)

lemma py_bounds_le: "py_bounds start stop n = (lo, hi) \<Longrightarrow> lo \<le> n \<and> hi \<le> n"
  by (auto simp: py_bounds_def py_index_le split: option.splits)

lemma take_drop_map_upt:
  "m + n \<le> N \<Longrightarrow> take n (drop m (map F [0..<N])) = map (\<lambda>f. F (m + f)) [0..<n]"
  by (simp add: list_eq_iff_nth_eq)

lemma slice_idx:
  assumes "f < n * b * (c::nat)"
  shows "(lo * (b * c) + f) div (b * c) = lo + f div (b * c)"
    and "(lo * (b * c) + f) div c mod b = f div c mod b"
    and "(lo * (b * c) + f) mod c = f mod c"
proof -
  from assms have c: "0 < c" and b: "0 < b" by (cases "c = 0"; cases "b = 0"; simp)+
  show "(lo * (b * c) + f) div (b * c) = lo + f div (b * c)" using b c by simp
  have "lo * (b * c) + f = (lo * b) * c + f" by (simp add: mult.assoc)
  then have "(lo * (b * c) + f) div c = lo * b + f div c" using c by (simp only: div_mult_self3)
  then show "(lo * (b * c) + f) div c mod b = f div c mod b" by simp
  have "(lo * (b * c) + f) mod c = ((lo * b) * c + f) mod c" by (simp add: mult.assoc)
  then show "(lo * (b * c) + f) mod c = f mod c" by simp
qed

lemma slice0_mk3:
  assumes "py_bounds start stop a = (lo, hi)"
  shows "slice0 start stop (mk3 a b c g) = Some (mk3 (hi - lo) b c (\<lambda>i j k. g (lo + i) j k))"
proof -
  from py_bounds_le[OF assms] have lo: "lo \<le> a" and hi: "hi \<le> a" by simp_all
  let ?F = "\<lambda>f. g (f div (b * c)) (f div c mod b) (f mod c)"
  have le: "lo * (b * c) + (hi - lo) * (b * c) \<le> a * b * c"
  proof -
    have "lo * (b * c) + (hi - lo) * (b * c) = (lo + (hi - lo)) * (b * c)" by (simp add: algebra_simps)
    also have "\<dots> \<le> a * (b * c)" using lo hi by (intro mult_le_mono1) simp
    finally show ?thesis by (simp add: mult.assoc)
  qed
  have "take ((hi - lo) * (b * c)) (drop (lo * (b * c)) (map ?F [0..<a * b * c]))
      = map (\<lambda>f. ?F (lo * (b * c) + f)) [0..<(hi - lo) * (b * c)]"
    using le by (rule take_drop_map_upt)
  also have "\<dots> = map (\<lambda>f. g (lo + f div (b * c)) (f div c mod b) (f mod c)) [0..<(hi - lo) * (b * c)]"
  proof (rule map_cong[OF refl])
    fix f assume "f \<in> set [0..<(hi - lo) * (b * c)]"
    then have "f < (hi - lo) * b * c" by (simp add: mult.assoc)
    from slice_idx[OF this, of lo]
    show "?F (lo * (b * c) + f) = g (lo + f div (b * c)) (f div c mod b) (f mod c)" by simp
  qed
  finally show ?thesis using assms by (simp add: slice0_def mk3_def mult.assoc Let_def)
qed

lemma slice0_is3:
  assumes "is3 t a b c" and "py_bounds start stop a = (lo, hi)"
  shows "slice0 start stop t = Some (mk3 (hi - lo) b c (\<lambda>i j k. at3 t (lo + i) j k))"
  using slice0_mk3[OF assms(2), of b c "at3 t"] is3_eq[OF assms(1)] by simp

lemma cat0_3d_aux:
  assumes "\<forall>t\<in>set ts. wft t \<and> (\<exists>n. shape t = [n, b, c])"
  shows "length (concat (map data ts)) = sum_list (map (\<lambda>t. hd (shape t)) ts) * b * c"
  using assms
proof (induction ts)
  case Nil
  then show ?case by simp
next
  case (Cons t ts)
  then obtain n where "wft t" "shape t = [n, b, c]" by auto
  then have "length (data t) = n * b * c" "hd (shape t) = n" by (simp_all add: wft_def)
  with Cons show ?case by (simp add: algebra_simps)
qed

lemma cat0_3d:
  assumes "ts \<noteq> []" and "\<forall>t\<in>set ts. wft t \<and> (\<exists>n. shape t = [n, b, c])"
  shows "\<exists>r. cat0 ts = Some r \<and> is3 r (sum_list (map (\<lambda>t. hd (shape t)) ts)) b c"
proof -
  have f: "filter (\<lambda>t. shape t \<noteq> [0]) ts = ts"
    using assms(2) by (auto simp: filter_id_conv)
  from assms(1) obtain u us where ts: "ts = u # us" by (cases ts) auto
  from assms(2) ts obtain n where u: "shape u = [n, b, c]" by auto
  have all: "list_all (\<lambda>t. shape t \<noteq> [] \<and> tl (shape t) = [b, c]) us"
    using assms(2) ts by (auto simp: list_all_iff)
  have "cat0 ts = Some \<lparr>shape = sum_list (map (\<lambda>t. hd (shape t)) ts) # [b, c],
                          data = concat (map data ts)\<rparr>"
    unfolding cat0_def f using u all by (simp add: ts)
  moreover have "is3 \<lparr>shape = sum_list (map (\<lambda>t. hd (shape t)) ts) # [b, c],
                          data = concat (map data ts)\<rparr> (sum_list (map (\<lambda>t. hd (shape t)) ts)) b c"
    using cat0_3d_aux[OF assms(2)] by (simp add: is3_def wft_def)
  ultimately show ?thesis by blast
qed

lemma sum_list_const: "\<forall>t\<in>set ts. f t = (k::nat) \<Longrightarrow> sum_list (map f ts) = length ts * k"
  by (induction ts) auto

lemma cat0_banks:
  assumes "\<forall>t\<in>set banks. is3 t 1 b c" and "is3 seg l b c"
  shows "\<exists>r. cat0 (banks @ [seg]) = Some r \<and> is3 r (length banks + l) b c"
proof -
  have 1: "\<forall>t\<in>set (banks @ [seg]). wft t \<and> (\<exists>n. shape t = [n, b, c])"
    using assms by (auto simp: is3_def)
  have "sum_list (map (\<lambda>t. hd (shape t)) banks) = length banks * 1"
    by (rule sum_list_const) (use assms in \<open>auto simp: is3_def\<close>)
  then have 2: "sum_list (map (\<lambda>t. hd (shape t)) (banks @ [seg])) = length banks + l"
    using assms(2) by (simp add: is3_def)
  from cat0_3d[OF _ 1] 2 show ?thesis by simp
qed

lemma cat0_pair_mk3:
  "cat0 [mk3 a b c g, mk3 a' b c h]
     = Some (mk3 (a + a') b c (\<lambda>i j k. if i < a then g i j k else h (i - a) j k))"
proof -
  let ?G = "\<lambda>f. g (f div (b * c)) (f div c mod b) (f mod c)"
  let ?H = "\<lambda>f. h (f div (b * c)) (f div c mod b) (f mod c)"
  let ?K = "\<lambda>f. (if f div (b * c) < a then g (f div (b * c)) (f div c mod b) (f mod c)
                   else h (f div (b * c) - a) (f div c mod b) (f mod c))"
  have "map ?G [0..<a * b * c] @ map ?H [0..<a' * b * c] = map ?K [0..<(a + a') * b * c]"
  proof (rule nth_equalityI)
    show "length (map ?G [0..<a * b * c] @ map ?H [0..<a' * b * c]) = length (map ?K [0..<(a + a') * b * c])"
      by (simp add: algebra_simps)
  next
    fix f assume "f < length (map ?G [0..<a * b * c] @ map ?H [0..<a' * b * c])"
    then have f: "f < (a + a') * b * c" by (simp add: algebra_simps)
    show "(map ?G [0..<a * b * c] @ map ?H [0..<a' * b * c]) ! f = map ?K [0..<(a + a') * b * c] ! f"
    proof (cases "f < a * b * c")
      case True
      then have "f div (b * c) < a" by (rule idx3_parts)
      then show ?thesis using True f by (simp add: nth_append)
    next
      case False
      then have ge: "a * (b * c) \<le> f" by (simp add: mult.assoc)
      from f have bc: "0 < b * c" by (cases "b * c = 0") auto
      have na: "\<not> f div (b * c) < a"
        using ge bc by (metis div_le_mono div_mult_self_is_m not_less)
      obtain r where r: "f = a * (b * c) + r" using ge le_Suc_ex by blast
      with f have rlt: "r < a' * b * c" by (simp add: algebra_simps)
      from slice_idx[OF rlt, of a] r
      have "?K f = ?H r" using na by simp
      moreover have "(map ?G [0..<a * b * c] @ map ?H [0..<a' * b * c]) ! f = ?H r"
        using False r rlt by (simp add: nth_append mult.assoc)
      moreover have "map ?K [0..<(a + a') * b * c] ! f = ?K f"
        using f nth_map_upt[of f "(a + a') * b * c" 0 ?K] by (simp only: add_0 minus_nat.diff_0)
      ultimately show ?thesis by (simp only:)
    qed
  qed
  then show ?thesis by (simp add: cat0_def mk3_def)
qed

lemma view_is3:
  "wft t \<Longrightarrow> prod_list (shape t) = a * b * c \<Longrightarrow> \<exists>r. view [a, b, c] t = Some r \<and> is3 r a b c \<and> data r = data t"
  by (simp add: view_def is3_def wft_def)

lemma view_infer_is3:
  assumes "is3 t n b (h * d)" and "0 < b" and "0 < h" and "0 < d"
  shows "\<exists>r. view_infer [b * h, d] t = Some r \<and> is3 r n (b * h) d"
proof -
  have len: "length (data t) = n * (b * h * d)" using is3_length[OF assms(1)] by (simp add: algebra_simps)
  have p: "0 < b * h * d" using assms by simp
  then have "n * (b * h * d) div (b * h * d) = n" by simp
  then show ?thesis using p len by (simp add: view_infer_def is3_def wft_def Let_def)
qed

lemma transpose01_is3: "is3 t a b c \<Longrightarrow> transpose01 t = Some (mk3 b a c (\<lambda>i j k. at3 t j i k))"
  by (simp add: transpose01_def is3_def)

lemma transpose12_is3: "is3 t a b c \<Longrightarrow> transpose12 t = Some (mk3 a c b (\<lambda>i j k. at3 t i k j))"
  by (simp add: transpose12_def is3_def)

lemma tmap_is3: "is3 t a b c \<Longrightarrow> is3 (tmap f t) a b c"
  by (simp add: is3_def tmap_def wft_def)

lemma apply_linear_is3:
  "is3 t a b c \<Longrightarrow> c = in_features l \<Longrightarrow> \<exists>r. apply_linear l t = Some r \<and> is3 r a b (out_features l)"
  by (simp add: apply_linear_def is3_def)

lemma bmm_is3:
  "is3 x n p q \<Longrightarrow> is3 y n q r \<Longrightarrow> \<exists>z. bmm x y = Some z \<and> is3 z n p r"
  by (simp add: bmm_def is3_def)

lemma fill_last_row_is3:
  "is3 w n (Suc p) q \<Longrightarrow>
     fill_last_row m v w = Some (mk3 n (Suc p) q (\<lambda>i j k. if j = p \<and> k < m then v else at3 w i j k))"
  by (simp add: fill_last_row_def is3_def)

lemma split_heads_is3:
  assumes "is3 t n b (num_heads self * head_dim self)" and "0 < b" and "0 < num_heads self" and "0 < head_dim self"
  shows "\<exists>r. split_heads self b t = Some r \<and> is3 r (b * num_heads self) n (head_dim self)"
proof -
  from view_infer_is3[OF assms] obtain y where
    y: "view_infer [b * num_heads self, head_dim self] t = Some y" "is3 y n (b * num_heads self) (head_dim self)"
    by blast
  show ?thesis using y transpose01_is3[OF y(2)] by (simp add: split_heads_def)
qed

lemma shape_mk2 [simp]: "shape (mk2 a b g) = [a, b]"
  by (simp add: mk2_def)

lemma wft_mk2 [simp]: "wft (mk2 a b g)"
  by (simp add: mk2_def wft_def)

lemma idx2_lt: "i < a \<Longrightarrow> j < b \<Longrightarrow> i * b + j < a * (b::nat)"
  using idx3_lt[of 0 1 i a j b] by simp

lemma at2_mk2 [simp]: "i < a \<Longrightarrow> j < b \<Longrightarrow> at2 (mk2 a b g) i j = g i j"
  using idx2_lt[of i a j b] by (simp add: at2_def mk2_def)

lemma full2 [simp]: "full [a, b] v = mk2 a b (\<lambda>i j. v)"
  by (simp add: full_def mk2_def map_replicate_const)

lemma mk2_at2: "wft t \<Longrightarrow> shape t = [a, b] \<Longrightarrow> mk2 a b (at2 t) = t"
proof -
  assume w: "wft t" and s: "shape t = [a, b]"
  have "map (\<lambda>f. at2 t (f div b) (f mod b)) [0..<a * b] = data t"
    using w s by (simp add: list_eq_iff_nth_eq wft_def at2_def)
  then show ?thesis using s by (simp add: mk2_def)
qed

lemma mk2_cong:
  assumes "\<And>i j. i < a \<Longrightarrow> j < b \<Longrightarrow> g i j = h i j"
  shows "mk2 a b g = mk2 a b h"
proof -
  have "map (\<lambda>f. g (f div b) (f mod b)) [0..<a * b] = map (\<lambda>f. h (f div b) (f mod b)) [0..<a * b]"
  proof (rule map_cong[OF refl])
    fix f assume "f \<in> set [0..<a * b]"
    then have f: "f < a * b" by simp
    then have p: "0 < b" by (cases "b = 0") auto
    have "f div b < a" using f p by (simp add: less_mult_imp_div_less mult.commute)
    moreover have "f mod b < b" using p by simp
    ultimately show "g (f div b) (f mod b) = h (f div b) (f mod b)" by (rule assms)
  qed
  then show ?thesis by (simp add: mk2_def)
qed

lemma cat1_mk2 [simp]:
  "cat1 (mk2 a b g) (mk2 a b' h)
     = Some (mk2 a (b + b') (\<lambda>i j. if j < b then g i j else h i (j - b)))"
proof -
  have "mk2 a (b + b') (\<lambda>i j. if j < b then at2 (mk2 a b g) i j else at2 (mk2 a b' h) i (j - b))
      = mk2 a (b + b') (\<lambda>i j. if j < b then g i j else h i (j - b))"
    by (rule mk2_cong) auto
  then show ?thesis by (simp add: cat1_def)
qed

lemma idx4_parts:
  assumes "f < a * b * c * (d::nat)"
  shows "f div (c * d) < a * b" "f div d mod c < c" "f mod d < d"
    "f div (b * c * d) = f div (c * d) div b" "f div (c * d) mod b < b" "f div (b * c * d) < a"
proof -
  from assms have d: "0 < d" and c: "0 < c" and b: "0 < b"
    by (cases "d = 0"; cases "c = 0"; cases "b = 0"; simp)+
  show "f mod d < d" using d by simp
  show "f div d mod c < c" using c by simp
  show "f div (c * d) mod b < b" using b by simp
  have "f < (a * b) * (c * d)" using assms by (simp add: mult.assoc)
  then show ab: "f div (c * d) < a * b" using c d by (simp add: less_mult_imp_div_less mult.commute)
  show e: "f div (b * c * d) = f div (c * d) div b"
    by (metis div_mult2_eq mult.assoc mult.commute)
  show "f div (b * c * d) < a" unfolding e using ab b by (simp add: less_mult_imp_div_less mult.commute)
qed

lemma apply_key_padding_mask_none [simp]:
  "apply_key_padding_mask self b m None w = Some w"
  by (simp add: apply_key_padding_mask_def)

lemma apply_key_padding_mask_no_padding:
  "\<not> tensor_any kpm \<Longrightarrow> apply_key_padding_mask self b m (Some kpm) w = Some w"
  by (simp add: apply_key_padding_mask_def)

lemma apply_key_padding_mask_some:
  assumes w: "is3 w (b * num_heads self) t (m + l)"
    and k: "wft kpm" "shape kpm = [b, l]"
    and any: "tensor_any kpm"
  shows "apply_key_padding_mask self b m (Some kpm) w =
     Some (mk3 (b * num_heads self) t (m + l)
            (\<lambda>n i j. if m \<le> j \<and> at2 kpm (n div num_heads self) (j - m) then NInf else at3 w n i j))"
proof -
  let ?h = "num_heads self" and ?s = "m + l"
  let ?k = "mk2 b ?s (\<lambda>i j. if j < m then False else at2 kpm i (j - m))"
  have kpm: "kpm = mk2 b l (at2 kpm)" using k by (simp add: mk2_at2)
  have c: "cat1 (full [b, m] False) kpm = Some ?k"
    by (subst kpm) simp
  have lw: "length (data w) = b * ?h * t * ?s" using is3_length[OF w] .
  have v: "view [b, ?h, t, ?s] w = Some \<lparr>shape = [b, ?h, t, ?s], data = data w\<rparr>"
    using lw by (simp add: view_def mult.assoc)
  have u: "unsqueeze 1 ?k = Some \<lparr>shape = [b, 1, ?s], data = data ?k\<rparr>"
    "unsqueeze 2 \<lparr>shape = [b, 1, ?s], data = data ?k\<rparr> = Some \<lparr>shape = [b, 1, 1, ?s], data = data ?k\<rparr>"
    by (simp_all add: unsqueeze_def)
  let ?w4 = "\<lparr>shape = [b, ?h, t, ?s], data = data w\<rparr>" and ?m4 = "\<lparr>shape = [b, 1, 1, ?s], data = data ?k\<rparr>"
  let ?G = "\<lambda>i j k l. if at4 ?m4 (bidx b i) (bidx 1 j) (bidx 1 k) (bidx ?s l) then NInf else at4 ?w4 i j k l"
  have mf: "masked_fill4 ?w4 ?m4 NInf = Some (mk4 b ?h t ?s ?G)"
    by (simp add: masked_fill4_def)
  have len4: "length (data (mk4 b ?h t ?s ?G)) = b * ?h * t * ?s" by (simp add: mk4_def)
  have v2: "view [b * ?h, t, ?s] (mk4 b ?h t ?s ?G)
      = Some \<lparr>shape = [b * ?h, t, ?s], data = data (mk4 b ?h t ?s ?G)\<rparr>"
    using len4 by (simp add: view_def mult.assoc)
  have eq: "data (mk4 b ?h t ?s ?G)
      = data (mk3 (b * ?h) t ?s
            (\<lambda>n i j. if m \<le> j \<and> at2 kpm (n div ?h) (j - m) then NInf else at3 w n i j))"
    unfolding mk4_def mk3_def tensor.simps
  proof (rule map_cong)
    show "[0..<b * ?h * t * ?s] = [0..<b * ?h * t * ?s]" by simp
  next
    fix f assume "f \<in> set [0..<b * ?h * t * ?s]"
    then have f: "f < b * ?h * t * ?s" by simp
    note p = idx4_parts[OF f]
    have h: "0 < ?h" using f by (cases "?h = 0") auto
    define b' h' i' j' where "b' = f div (t * ?s) div ?h" and "h' = f div (t * ?s) mod ?h"
      and "i' = f div ?s mod t" and "j' = f mod ?s"
    have r: "b' < b" "j' < ?s" using p(6) p(4) p(3) by (simp_all add: b'_def j'_def)
    have bi: "bidx b b' = b'" "bidx ?s j' = j'" "bidx 1 h' = 0" "bidx 1 i' = 0"
      using r by (auto simp: bidx_def)
    have mk: "at4 ?m4 b' 0 0 j' = at2 ?k b' j'"
      by (simp add: at4_def at2_def)
    have mkv: "at2 ?k b' j' = (if j' < m then False else at2 kpm b' (j' - m))"
      using r by simp
    have n: "b' * ?h + h' = f div (t * ?s)" by (simp add: b'_def h'_def)
    have wv: "at4 ?w4 b' h' i' j' = at3 w (f div (t * ?s)) i' j'"
      using w by (simp add: at4_def at3_def is3_def n)
    have "?G b' h' i' j' = (if at4 ?m4 b' 0 0 j' then NInf else at4 ?w4 b' h' i' j')"
      by (simp only: bi)
    also have "\<dots> = (if m \<le> j' \<and> at2 kpm b' (j' - m) then NInf else at3 w (f div (t * ?s)) i' j')"
      unfolding mk mkv wv by auto
    finally show "?G (f div (?h * t * ?s)) (f div (t * ?s) mod ?h) (f div ?s mod t) (f mod ?s)
        = (if m \<le> f mod ?s \<and> at2 kpm (f div (t * ?s) div ?h) (f mod ?s - m) then NInf
           else at3 w (f div (t * ?s)) (f div ?s mod t) (f mod ?s))"
      unfolding p(4) b'_def h'_def i'_def j'_def .
  qed
  have "apply_key_padding_mask self b m (Some kpm) w
      = Some \<lparr>shape = [b * ?h, t, ?s], data = data (mk4 b ?h t ?s ?G)\<rparr>"
    using any w c v u mf v2 by (simp add: apply_key_padding_mask_def is3_def)
  also have "\<lparr>shape = [b * ?h, t, ?s], data = data (mk4 b ?h t ?s ?G)\<rparr>
      = mk3 (b * ?h) t ?s
            (\<lambda>n i j. if m \<le> j \<and> at2 kpm (n div ?h) (j - m) then NInf else at3 w n i j)"
    unfolding eq by (simp add: mk3_def)
  finally show ?thesis .
qed

lemma fl_div_zero_cases: "fl_div (Fin 0) s = Fin 0 \<or> fl_div (Fin 0) s = NaN"
  by (cases s) (auto simp: signed_inf_def)

lemma softmax_row_neg_inf:
  assumes "j < length xs" and "xs ! j = NInf"
  shows "softmax_row xs ! j = Fin 0 \<or> softmax_row xs ! j = NaN"
proof -
  let ?m = "fl_maximum xs"
  let ?es = "map (\<lambda>x. fl_exp (fl_sub x ?m)) xs"
  have e: "fl_exp (fl_sub NInf ?m) = Fin 0 \<or> fl_exp (fl_sub NInf ?m) = NaN"
    by (cases ?m) (simp_all add: fl_sub_def)
  have "softmax_row xs ! j = fl_div (fl_exp (fl_sub NInf ?m)) (fl_sum ?es)"
    using assms by (simp add: softmax_row_def Let_def)
  then show ?thesis using e fl_div_zero_cases[of "fl_sum ?es"] by auto
qed

lemma fl_mul_zero_fin [simp]: "fl_mul (Fin 0) (Fin c) = Fin 0"
  by simp

lemma apply_dropout_mk3:
  "apply_dropout d (mk3 a b c g)
     = mk3 a b c (\<lambda>i j k. case d of None \<Rightarrow> g i j k
                          | Some m \<Rightarrow> fl_mul (g i j k) (Fin (m ((i * b + j) * c + k))))"
proof (cases d)
  case None
  then show ?thesis by (simp add: apply_dropout_def)
next
  case (Some m)
  have "map (\<lambda>f. fl_mul (data (mk3 a b c g) ! f) (Fin (m f))) [0..<a * b * c]
      = map (\<lambda>f. fl_mul (g (f div (b * c)) (f div c mod b) (f mod c))
                   (Fin (m ((f div (b * c) * b + f div c mod b) * c + f mod c)))) [0..<a * b * c]"
  proof (rule map_cong[OF refl])
    fix f assume "f \<in> set [0..<a * b * c]"
    then have f: "f < a * b * c" by simp
    then have "0 < b" by (cases "b = 0") auto
    then have "(f div (b * c) * b + f div c mod b) * c + f mod c = f" by (rule idx3_recompose)
    then show "fl_mul (data (mk3 a b c g) ! f) (Fin (m f))
        = fl_mul (g (f div (b * c)) (f div c mod b) (f mod c))
                   (Fin (m ((f div (b * c) * b + f div c mod b) * c + f mod c)))"
      using f by (simp add: mk3_def)
  qed
  then show ?thesis using Some by (simp add: apply_dropout_def mk3_def)
qed

lemma masked_fill_mk3:
  "masked_fill (mk3 a b c g) (mk3 a b c p) v = mk3 a b c (\<lambda>i j k. if p i j k then v else g i j k)"
  by (simp add: masked_fill_def mk3_def zip_map_map list_eq_iff_nth_eq)

lemma tensor_any_mk3:
  "\<not> tensor_any (mk3 a b c p) \<Longrightarrow> i < a \<Longrightarrow> j < b \<Longrightarrow> k < c \<Longrightarrow> \<not> p i j k"
proof -
  assume n: "\<not> tensor_any (mk3 a b c p)" and r: "i < a" "j < b" "k < c"
  have "at3 (mk3 a b c p) i j k \<in> set (data (mk3 a b c p))"
    unfolding at3_def using idx3_lt[OF r] by (intro nth_mem) (simp add: mk3_def)
  then show ?thesis using n r by (auto simp: tensor_any_def list_ex_iff)
qed

lemma sanitize_nan_mk3:
  "sanitize_nan (mk3 a b c g) = mk3 a b c (\<lambda>i j k. if is_nan (g i j k) then Fin 0 else g i j k)"
proof (cases "tensor_any (mk3 a b c (\<lambda>i j k. is_nan (g i j k)))")
  case True
  then show ?thesis by (simp add: sanitize_nan_def masked_fill_mk3)
next
  case False
  have "sanitize_nan (mk3 a b c g) = mk3 a b c g"
    using False by (simp add: sanitize_nan_def)
  also have "mk3 a b c g = mk3 a b c (\<lambda>i j k. if is_nan (g i j k) then Fin 0 else g i j k)"
    by (rule mk3_cong) (use tensor_any_mk3[OF False] in auto)
  finally show ?thesis .
qed

lemma softmax_last_is3:
  "is3 w a b c \<Longrightarrow> softmax_last w = Some (mk3 a b c (\<lambda>i j k. softmax_row (row3 w i j) ! k))"
  by (simp add: softmax_last_def is3_def)

lemma length_row3: "is3 w a b c \<Longrightarrow> length (row3 w i j) = c"
  by (simp add: row3_def is3_def)

lemma nth_row3: "is3 w a b c \<Longrightarrow> k < c \<Longrightarrow> row3 w i j ! k = at3 w i j k"
  by (simp add: row3_def is3_def)

lemma fl_max_reg: "reg a \<Longrightarrow> reg b \<Longrightarrow> reg (fl_max a b) \<and> (fl_max a b = NInf \<longrightarrow> a = NInf \<and> b = NInf)"
  by (cases a; cases b) (auto simp: fl_max_def reg_def)

lemma foldl_fl_max_reg:
  "reg a \<Longrightarrow> \<forall>x\<in>set xs. reg x \<Longrightarrow>
     reg (foldl fl_max a xs) \<and> (foldl fl_max a xs = NInf \<longrightarrow> a = NInf \<and> (\<forall>x\<in>set xs. x = NInf))"
proof (induction xs arbitrary: a)
  case Nil
  then show ?case by simp
next
  case (Cons x xs)
  from fl_max_reg[of a x] Cons.prems have m: "reg (fl_max a x)" "fl_max a x = NInf \<longrightarrow> a = NInf \<and> x = NInf"
    by auto
  from Cons.IH[OF m(1)] Cons.prems m(2) show ?case by auto
qed

lemma fl_maximum_finite:
  assumes "\<forall>x\<in>set xs. reg x" and "\<exists>x\<in>set xs. x \<noteq> NInf"
  shows "\<exists>c. fl_maximum xs = Fin c"
proof (cases xs)
  case Nil
  then show ?thesis using assms by simp
next
  case (Cons a as)
  from foldl_fl_max_reg[of a as] assms Cons
  have "reg (fl_maximum xs)" "fl_maximum xs \<noteq> NInf" by auto
  then show ?thesis by (cases "fl_maximum xs") (auto simp: reg_def)
qed

lemma fl_sum_exp_pos:
  assumes "\<forall>x\<in>set xs. reg x"
  shows "\<exists>s. fl_sum (map (\<lambda>x. fl_exp (fl_sub x (Fin c))) xs) = Fin s \<and> 0 \<le> s
            \<and> ((\<exists>x\<in>set xs. x \<noteq> NInf) \<longrightarrow> 0 < s)"
  using assms
proof (induction xs)
  case Nil
  then show ?case by (simp add: fl_sum_def)
next
  case (Cons x xs)
  then obtain s where s: "fl_sum (map (\<lambda>x. fl_exp (fl_sub x (Fin c))) xs) = Fin s" "0 \<le> s"
    "(\<exists>x\<in>set xs. x \<noteq> NInf) \<longrightarrow> 0 < s" by auto
  have x: "reg x" using Cons.prems by simp
  show ?case
  proof (cases x)
    case (Fin a)
    have "0 < exp (a - c)" by simp
    then have "0 < exp (a - c) + s" using s(2) by linarith
    then show ?thesis using s Fin by (simp add: fl_sum_def fl_sub_def)
  next
    case NInf
    then show ?thesis using s by (simp add: fl_sum_def fl_sub_def)
  qed (use x in \<open>auto simp: reg_def\<close>)
qed

section \<open>The stages of the attention on well-formed inputs\<close>

lemma wf_attentionD:
  assumes "wf_attention self"
  shows "0 < num_heads self" "0 < head_dim self"
    "embed_dim self = num_heads self * head_dim self"
    "in_features (q_proj self) = embed_dim self" "out_features (q_proj self) = embed_dim self"
    "in_features (k_proj self) = embed_dim self" "out_features (k_proj self) = embed_dim self"
    "in_features (v_proj self) = embed_dim self" "out_features (v_proj self) = embed_dim self"
    "in_features (out_proj self) = embed_dim self" "out_features (out_proj self) = embed_dim self"
  using assms by (auto simp: wf_attention_def mult.commute)

lemma attention_suppression_is3:
  assumes "is3 w n q k"
  shows "attention_suppression w s =
     Some (mk3 n q k (\<lambda>i j l.
       if fl_lt (softmax_row (row3 w i j) ! l) (row_threshold (softmax_row (row3 w i j)) s)
       then NInf else at3 w i j l))"
  using assms by (simp add: is3_def attention_suppression_wft)

lemma attention_scores_ok:
  assumes wf: "wf_attention self"
    and x: "is3 x (Suc L) B (embed_dim self)"
    and B: "0 < B"
    and banks: "\<forall>t\<in>set banks. is3 t 1 B (embed_dim self)"
  shows "\<exists>W v. attention_scores self x banks = Some (W, v)
           \<and> is3 W (B * num_heads self) (Suc L) (length banks + L)
           \<and> is3 v (B * num_heads self) (length banks + L) (head_dim self)
           \<and> (disable_mem_on_mem_attn self \<longrightarrow>
                (\<forall>n<B * num_heads self. \<forall>j<length banks. at3 W n L j = NInf))"
proof -
  note d = wf_attentionD[OF wf]
  let ?E = "embed_dim self" and ?H = "num_heads self" and ?D = "head_dim self"
  let ?K = "length banks + L"
  have sx: "shape x = [Suc L, B, ?E]" using x by (simp add: is3_def)
  have "slice0 None (Some (- 1)) x = Some (mk3 (Suc L - 1 - 0) B ?E (\<lambda>i j k. at3 x (0 + i) j k))"
    by (rule slice0_is3[OF x]) simp
  then obtain seg where seg: "slice0 None (Some (- 1)) x = Some seg" "is3 seg L B ?E" by simp
  from cat0_banks[OF banks seg(2)] obtain mbi where
    mbi: "cat0 (banks @ [seg]) = Some mbi" "is3 mbi ?K B ?E" by blast
  from apply_linear_is3[OF x, of "q_proj self"] d obtain q0 where
    q0: "apply_linear (q_proj self) x = Some q0" "is3 q0 (Suc L) B (?H * ?D)" by auto
  from apply_linear_is3[OF mbi(2), of "k_proj self"] d obtain k0 where
    k0: "apply_linear (k_proj self) mbi = Some k0" "is3 k0 ?K B (?H * ?D)" by auto
  from apply_linear_is3[OF mbi(2), of "v_proj self"] d obtain v0 where
    v0: "apply_linear (v_proj self) mbi = Some v0" "is3 v0 ?K B (?H * ?D)" by auto
  from split_heads_is3[OF q0(2) B d(1) d(2)] obtain q1 where
    q1: "split_heads self B q0 = Some q1" "is3 q1 (B * ?H) (Suc L) ?D" by blast
  from split_heads_is3[OF k0(2) B d(1) d(2)] obtain k1 where
    k1: "split_heads self B k0 = Some k1" "is3 k1 (B * ?H) ?K ?D" by blast
  from split_heads_is3[OF v0(2) B d(1) d(2)] obtain v1 where
    v1: "split_heads self B v0 = Some v1" "is3 v1 (B * ?H) ?K ?D" by blast
  let ?q2 = "tmap (\<lambda>x. fl_mul x (Fin (scaling self))) q1"
  have q2: "is3 ?q2 (B * ?H) (Suc L) ?D" using q1(2) by (rule tmap_is3)
  obtain kt where kt: "transpose12 k1 = Some kt" "is3 kt (B * ?H) ?D ?K"
    using transpose12_is3[OF k1(2)] by simp
  from bmm_is3[OF q2 kt(2)] obtain w0 where
    w0: "bmm ?q2 kt = Some w0" "is3 w0 (B * ?H) (Suc L) ?K" by blast
  obtain w1 where w1: "(if disable_mem_on_mem_attn self
               then fill_last_row (length banks) NInf w0 else Some w0) = Some w1"
      "is3 w1 (B * ?H) (Suc L) ?K"
      "disable_mem_on_mem_attn self \<longrightarrow> (\<forall>n<B * ?H. \<forall>j<length banks. at3 w1 n L j = NInf)"
    using fill_last_row_is3[OF w0(2), of "length banks" NInf] w0(2)
    by (cases "disable_mem_on_mem_attn self") auto
  obtain w2 where w2: "(case std_scale self of None \<Rightarrow> Some w1
               | Some s \<Rightarrow> attention_suppression w1 s) = Some w2"
      "is3 w2 (B * ?H) (Suc L) ?K"
      "disable_mem_on_mem_attn self \<longrightarrow> (\<forall>n<B * ?H. \<forall>j<length banks. at3 w2 n L j = NInf)"
    using w1 attention_suppression_is3[OF w1(2)]
    by (cases "std_scale self") auto
  have sh: "map int (shape w2) = [int (B * ?H), int (Suc L) - 1 + 1, int (Suc L) - 1 + int (length banks)]"
    using w2(2) by (simp add: is3_def)
  have "attention_scores self x banks = Some (w2, v1)"
    unfolding attention_scores_def sx
    using seg(1) mbi(1) q0(1) k0(1) v0(1) q1(1) k1(1) v1(1) kt(1) w0(1) w1(1) w2(1) sh
    by (simp add: Let_def)
  then show ?thesis using w2 v1 by blast
qed

lemma tensor_any_at2:
  assumes "wft k" "shape k = [b, l]" "\<not> tensor_any k" "i < b" "j < l"
  shows "\<not> at2 k i j"
proof -
  have "at2 k i j \<in> set (data k)"
    unfolding at2_def using idx2_lt[OF assms(4,5)] assms(1,2) by (intro nth_mem) (simp add: wft_def)
  then show ?thesis using assms(3) by (auto simp: tensor_any_def list_ex_iff)
qed

lemma div_lt_heads: "n < b * h \<Longrightarrow> n div h < (b::nat)"
  by (cases "h = 0") (simp_all add: less_mult_imp_div_less)

lemma apply_key_padding_mask_ok:
  assumes w: "is3 w (b * num_heads self) t (m + l)"
    and k: "wf_padding_mask kpm b l"
  shows "\<exists>w'. apply_key_padding_mask self b m kpm w = Some w'
           \<and> is3 w' (b * num_heads self) t (m + l)
           \<and> (\<forall>n<b * num_heads self. \<forall>i<t. \<forall>j<m + l.
                 at3 w' n i j =
                   (if m \<le> j \<and> padded kpm (n div num_heads self) (j - m) then NInf else at3 w n i j))"
proof (cases kpm)
  case None
  then show ?thesis using w by (simp add: padded_def)
next
  case (Some km)
  then have km: "wft km" "shape km = [b, l]" using k by (simp_all add: wf_padding_mask_def)
  show ?thesis
  proof (cases "tensor_any km")
    case True
    show ?thesis
      unfolding Some apply_key_padding_mask_some[OF w km True] by (simp add: padded_def)
  next
    case False
    have "\<forall>n<b * num_heads self. \<forall>j<m + l. \<not> (m \<le> j \<and> at2 km (n div num_heads self) (j - m))"
      using tensor_any_at2[OF km False] div_lt_heads by auto
    then show ?thesis
      unfolding Some apply_key_padding_mask_no_padding[OF False] using w by (auto simp add: padded_def)
  qed
qed

lemma attention_probs_ok:
  assumes wf: "wf_attention self"
    and x: "is3 x (Suc L) B (embed_dim self)"
    and B: "0 < B"
    and banks: "\<forall>t\<in>set banks. is3 t 1 B (embed_dim self)"
    and k: "wf_padding_mask kpm B L"
  shows "\<exists>W v W' R P. attention_scores self x banks = Some (W, v)
           \<and> apply_key_padding_mask self B (length banks) kpm W = Some W'
           \<and> attention_probs self x banks kpm = Some (R, P, v)
           \<and> is3 W (B * num_heads self) (Suc L) (length banks + L)
           \<and> is3 W' (B * num_heads self) (Suc L) (length banks + L)
           \<and> is3 R (B * num_heads self) (Suc L) (length banks + L)
           \<and> is3 P (B * num_heads self) (Suc L) (length banks + L)
           \<and> is3 v (B * num_heads self) (length banks + L) (head_dim self)
           \<and> (disable_mem_on_mem_attn self \<longrightarrow>
                (\<forall>n<B * num_heads self. \<forall>j<length banks. at3 W n L j = NInf))
           \<and> (\<forall>n<B * num_heads self. \<forall>i<Suc L. \<forall>j<length banks + L.
                 at3 W' n i j =
                   (if length banks \<le> j \<and> padded kpm (n div num_heads self) (j - length banks)
                    then NInf else at3 W n i j)
               \<and> at3 R n i j = softmax_row (row3 W' n i) ! j
               \<and> at3 P n i j =
                   (let y = dropped self ((n * Suc L + i) * (length banks + L) + j) (at3 R n i j)
                    in if is_nan y then Fin 0 else y))"
proof -
  let ?N = "B * num_heads self" and ?K = "length banks + L"
  from attention_scores_ok[OF wf x B banks] obtain W v where
    s: "attention_scores self x banks = Some (W, v)" "is3 W ?N (Suc L) ?K"
       "is3 v ?N ?K (head_dim self)"
       "disable_mem_on_mem_attn self \<longrightarrow> (\<forall>n<?N. \<forall>j<length banks. at3 W n L j = NInf)"
    by blast
  from apply_key_padding_mask_ok[OF s(2) k] obtain W' where
    m: "apply_key_padding_mask self B (length banks) kpm W = Some W'" "is3 W' ?N (Suc L) ?K"
       "\<forall>n<?N. \<forall>i<Suc L. \<forall>j<?K. at3 W' n i j =
          (if length banks \<le> j \<and> padded kpm (n div num_heads self) (j - length banks)
           then NInf else at3 W n i j)"
    by blast
  let ?R = "mk3 ?N (Suc L) ?K (\<lambda>i j k. softmax_row (row3 W' i j) ! k)"
  have r: "softmax_last W' = Some ?R" using m(2) by (rule softmax_last_is3)
  let ?P = "sanitize_nan (apply_dropout (attn_dropout_module self) ?R)"
  have p: "?P = mk3 ?N (Suc L) ?K (\<lambda>i j k.
      let y = dropped self ((i * Suc L + j) * ?K + k) (softmax_row (row3 W' i j) ! k)
      in if is_nan y then Fin 0 else y)"
    unfolding apply_dropout_mk3 sanitize_nan_mk3 dropped_def Let_def ..
  have sx: "shape x = [Suc L, B, embed_dim self]" using x by (simp add: is3_def)
  have a: "attention_probs self x banks kpm = Some (?R, ?P, v)"
    unfolding attention_probs_def sx using s(1) m(1) r by (simp add: Let_def)
  have iP: "is3 ?P ?N (Suc L) ?K" unfolding p by simp
  have eP: "\<And>n i j. n < ?N \<Longrightarrow> i < Suc L \<Longrightarrow> j < ?K \<Longrightarrow> at3 ?P n i j =
      (let y = dropped self ((n * Suc L + i) * ?K + j) (at3 ?R n i j)
       in if is_nan y then Fin 0 else y)"
    unfolding p by simp
  have eR: "\<And>n i j. n < ?N \<Longrightarrow> i < Suc L \<Longrightarrow> j < ?K \<Longrightarrow>
      at3 ?R n i j = softmax_row (row3 W' n i) ! j"
    by simp
  have iR: "is3 ?R ?N (Suc L) ?K" by simp
  have e: "\<forall>n<?N. \<forall>i<Suc L. \<forall>j<?K.
                 at3 W' n i j =
                   (if length banks \<le> j \<and> padded kpm (n div num_heads self) (j - length banks)
                    then NInf else at3 W n i j)
               \<and> at3 ?R n i j = softmax_row (row3 W' n i) ! j
               \<and> at3 ?P n i j =
                   (let y = dropped self ((n * Suc L + i) * ?K + j) (at3 ?R n i j)
                    in if is_nan y then Fin 0 else y)"
  proof (intro allI impI conjI)
    fix n i j assume r: "n < ?N" "i < Suc L" "j < ?K"
    show "at3 W' n i j =
                   (if length banks \<le> j \<and> padded kpm (n div num_heads self) (j - length banks)
                    then NInf else at3 W n i j)" using m(3) r by blast
    show "at3 ?R n i j = softmax_row (row3 W' n i) ! j" using r by (rule eR)
    show "at3 ?P n i j =
                   (let y = dropped self ((n * Suc L + i) * ?K + j) (at3 ?R n i j)
                    in if is_nan y then Fin 0 else y)" using r by (rule eP)
  qed
  show ?thesis
    by (rule exI[of _ W], rule exI[of _ v], rule exI[of _ W'], rule exI[of _ ?R], rule exI[of _ ?P])
       (intro conjI s(1) m(1) a s(2) m(2) iR iP s(3) s(4) e)
qed

lemma set_py_slice: "set (py_slice start stop xs) \<subseteq> set xs"
  by (auto simp: py_slice_def split: prod.splits dest: in_set_takeD in_set_dropD)

lemma set_capped_memory_banks: "set (capped_memory_banks self stored) \<subseteq> set stored"
  using set_py_slice[of "Some (- max_memory_size self)" None stored]
  by (auto simp: capped_memory_banks_def)

lemma length_capped_memory_banks:
  "0 \<le> max_memory_size self \<Longrightarrow>
     length (capped_memory_banks self stored) = min (length stored) (nat (max_memory_size self))"
  by (auto simp: capped_memory_banks_def py_slice_def py_bounds_def py_index_def)

lemma capped_memory_banks_unbounded:
  "max_memory_size self < 0 \<Longrightarrow> capped_memory_banks self stored = stored"
  by (auto simp: capped_memory_banks_def py_slice_def py_bounds_def py_index_def)

lemma attention_aggregate_ok:
  assumes wf: "wf_attention self"
    and x: "is3 x (Suc L) B (embed_dim self)"
    and B: "0 < B"
    and banks: "\<forall>t\<in>set banks. is3 t 1 B (embed_dim self)"
    and k: "wf_padding_mask kpm B L"
  shows "\<exists>A. attention_aggregate self x banks kpm = Some A
           \<and> is3 A (B * num_heads self) (Suc L) (head_dim self)"
proof -
  from attention_probs_ok[OF wf x B banks k] obtain R P v where
    p: "attention_probs self x banks kpm = Some (R, P, v)"
       "is3 P (B * num_heads self) (Suc L) (length banks + L)"
       "is3 v (B * num_heads self) (length banks + L) (head_dim self)"
    by blast
  from bmm_is3[OF p(2) p(3)] obtain A where
    a: "bmm P v = Some A" "is3 A (B * num_heads self) (Suc L) (head_dim self)" by blast
  have sx: "shape x = [Suc L, B, embed_dim self]" using x by (simp add: is3_def)
  have "attention_aggregate self x banks kpm = Some A"
    unfolding attention_aggregate_def sx using p(1) a by (simp add: is3_def)
  then show ?thesis using a(2) by blast
qed

lemma squash_mem_is3: "is3 t a b c \<Longrightarrow> is3 (squash_mem self t) a b c"
  by (simp add: squash_mem_def tmap_is3)

lemma forward_returns:
  assumes wf: "wf_attention self"
    and x: "is3 x (Suc L) B (embed_dim self)"
    and B: "0 < B"
    and st: "memory_banks state = Some stored"
    and banks: "\<forall>t\<in>set stored. is3 t 1 B (embed_dim self)"
    and k: "wf_padding_mask kpm B L"
  shows "\<exists>out next_m. forward self x state kpm
             = Some (out, state\<lparr>memory_banks := Some (stored @ [next_m])\<rparr>)
           \<and> is3 out L B (embed_dim self) \<and> is3 next_m 1 B (embed_dim self)"
proof -
  note d = wf_attentionD[OF wf]
  let ?E = "embed_dim self" and ?H = "num_heads self" and ?D = "head_dim self"
  let ?banks = "capped_memory_banks self stored"
  have cb: "\<forall>t\<in>set ?banks. is3 t 1 B ?E" using banks set_capped_memory_banks by blast
  from attention_aggregate_ok[OF wf x B cb k] obtain A where
    a: "attention_aggregate self x ?banks kpm = Some A" "is3 A (B * ?H) (Suc L) ?D" by blast
  let ?T = "mk3 (Suc L) (B * ?H) ?D (\<lambda>i j k. at3 A j i k)"
  have t: "transpose01 A = Some ?T" using a(2) by (rule transpose01_is3)
  have "\<exists>r. view [Suc L, B, ?E] ?T = Some r \<and> is3 r (Suc L) B ?E \<and> data r = data ?T"
    by (rule view_is3) (simp_all add: d(3) algebra_simps)
  then obtain V where v: "view [Suc L, B, ?E] ?T = Some V" "is3 V (Suc L) B ?E" by blast
  from apply_linear_is3[OF v(2), of "out_proj self"] d obtain Y where
    o: "apply_linear (out_proj self) V = Some Y" "is3 Y (Suc L) B ?E" by auto
  have "slice0 (Some (- 1)) None Y = Some (mk3 (Suc L - (Suc L - 1)) B ?E (\<lambda>i j k. at3 Y (Suc L - 1 + i) j k))"
    by (rule slice0_is3[OF o(2)]) simp
  then obtain nm where nm: "slice0 (Some (- 1)) None Y = Some nm" "is3 nm 1 B ?E" by simp
  have "slice0 None (Some (- 1)) Y = Some (mk3 (Suc L - 1 - 0) B ?E (\<lambda>i j k. at3 Y (0 + i) j k))"
    by (rule slice0_is3[OF o(2)]) simp
  then obtain out where out: "slice0 None (Some (- 1)) Y = Some out" "is3 out L B ?E" by simp
  have sx: "shape x = [Suc L, B, ?E]" using x by (simp add: is3_def)
  have "forward self x state kpm
      = Some (out, state\<lparr>memory_banks := Some (stored @ [squash_mem self nm])\<rparr>)"
    unfolding forward_def sx using st a(1) t v(1) o(1) nm(1) out(1)
    by (simp add: Let_def nat_add_distrib)
  then show ?thesis using out(2) squash_mem_is3[OF nm(2)] by blast
qed

lemma softmax_row_finite:
  assumes "\<forall>x\<in>set xs. reg x" and "\<exists>x\<in>set xs. x \<noteq> NInf"
    and "j < length xs" and "xs ! j = NInf"
  shows "softmax_row xs ! j = Fin 0"
proof -
  from fl_maximum_finite[OF assms(1,2)] obtain c where c: "fl_maximum xs = Fin c" by blast
  from fl_sum_exp_pos[OF assms(1), of c] assms(2) obtain s where
    s: "fl_sum (map (\<lambda>x. fl_exp (fl_sub x (Fin c))) xs) = Fin s" "0 < s" by blast
  show ?thesis using assms(3,4) c s by (simp add: softmax_row_def Let_def fl_sub_def)
qed

lemma dropped_zero [simp]: "dropped self f (Fin 0) = Fin 0"
  by (simp add: dropped_def split: option.splits)

lemma dropped_nan [simp]: "dropped self f NaN = NaN"
  by (simp add: dropped_def split: option.splits)

lemma sanitized_zero:
  "r = Fin 0 \<or> r = NaN \<Longrightarrow> (let y = dropped self f r in if is_nan y then Fin 0 else y) = Fin 0"
  by auto

lemma sanitized_not_nan: "\<not> is_nan (let y = dropped self f r in if is_nan y then Fin 0 else y)"
  by (simp add: Let_def)

lemma forward_SomeD:
  assumes f: "forward self x state kpm = Some (out, st')"
    and sx: "shape x = [Suc L, B, E']"
    and o: "out_features (out_proj self) = embed_dim self"
  shows "\<exists>stored next_m. memory_banks state = Some stored
           \<and> st' = state\<lparr>memory_banks := Some (stored @ [next_m])\<rparr>
           \<and> is3 next_m 1 B (embed_dim self)"
proof -
  from f obtain stored T V Y nm where
    st: "memory_banks state = Some stored"
    and v: "view [nat (int (Suc L) - 1 + 1), B, embed_dim self] T = Some V"
    and y: "apply_linear (out_proj self) V = Some Y"
    and nm: "slice0 (Some (- 1)) None Y = Some nm"
    and st': "st' = state\<lparr>memory_banks := Some (stored @ [squash_mem self nm])\<rparr>"
    unfolding forward_def sx by (auto simp: Let_def split: bind_splits)
  have sv: "shape V = [Suc L, B, embed_dim self]"
    using v by (auto simp: view_def nat_add_distrib split: if_splits)
  have "\<exists>g. Y = mk3 (Suc L) B (embed_dim self) g"
    using y sv o by (auto simp: apply_linear_def split: if_splits)
  then obtain g where Y: "Y = mk3 (Suc L) B (embed_dim self) g" by blast
  have "slice0 (Some (- 1)) None Y
      = Some (mk3 (Suc L - (Suc L - 1)) B (embed_dim self) (\<lambda>i j k. g (Suc L - 1 + i) j k))"
    unfolding Y by (rule slice0_mk3) simp
  then have "is3 nm 1 B (embed_dim self)" using nm by auto
  then have "is3 (squash_mem self nm) 1 B (embed_dim self)" by (rule squash_mem_is3)
  then show ?thesis using st st' by blast
qed

lemma attention_probs_no_padding:
  "\<not> tensor_any kpm \<Longrightarrow> attention_probs self x banks (Some kpm) = attention_probs self x banks None"
  by (simp add: attention_probs_def apply_key_padding_mask_no_padding split: list.splits)

lemma forward_no_padding:
  "\<not> tensor_any kpm \<Longrightarrow> forward self x state (Some kpm) = forward self x state None"
proof -
  assume n: "\<not> tensor_any kpm"
  have "attention_aggregate self x banks (Some kpm) = attention_aggregate self x banks None" for banks
    by (simp add: attention_aggregate_def attention_probs_no_padding[OF n] split: list.splits)
  then show ?thesis by (simp add: forward_def split: list.splits)
qed

lemma forward_calls_ok:
  assumes wf: "wf_attention self" and B: "0 < B"
    and ins: "\<forall>(x, kpm)\<in>set ins. \<exists>L. is3 x (Suc L) B (embed_dim self) \<and> wf_padding_mask kpm B L"
    and st: "memory_banks state = Some stored"
    and banks: "\<forall>t\<in>set stored. is3 t 1 B (embed_dim self)"
  shows "\<exists>outs st' new. forward_calls self ins state = Some (outs, st')
           \<and> memory_banks st' = Some (stored @ new) \<and> length new = length ins
           \<and> length outs = length ins
           \<and> (\<forall>t\<in>set new. is3 t 1 B (embed_dim self))"
  using ins st banks
proof (induction ins arbitrary: state stored)
  case Nil
  then show ?case by simp
next
  case (Cons a ins)
  obtain x kpm where a: "a = (x, kpm)" by (cases a)
  from Cons.prems(1) a obtain L where x: "is3 x (Suc L) B (embed_dim self)" "wf_padding_mask kpm B L"
    by auto
  from forward_returns[OF wf x(1) B Cons.prems(2) Cons.prems(3) x(2)] obtain out next_m where
    f: "forward self x state kpm = Some (out, state\<lparr>memory_banks := Some (stored @ [next_m])\<rparr>)"
       "is3 next_m 1 B (embed_dim self)" by blast
  let ?st = "state\<lparr>memory_banks := Some (stored @ [next_m])\<rparr>"
  have "\<exists>outs st' new. forward_calls self ins ?st = Some (outs, st')
           \<and> memory_banks st' = Some ((stored @ [next_m]) @ new) \<and> length new = length ins
           \<and> length outs = length ins
           \<and> (\<forall>t\<in>set new. is3 t 1 B (embed_dim self))"
    by (rule Cons.IH) (use Cons.prems f(2) in auto)
  then obtain outs st' new where
    r: "forward_calls self ins ?st = Some (outs, st')"
       "memory_banks st' = Some ((stored @ [next_m]) @ new)" "length new = length ins"
       "length outs = length ins"
       "\<forall>t\<in>set new. is3 t 1 B (embed_dim self)" by blast
  have "forward_calls self (a # ins) state = Some (out # outs, st')"
    using f(1) r(1) by (simp add: a)
  moreover have "memory_banks st' = Some (stored @ (next_m # new))" using r(2) by simp
  ultimately show ?case using r(3,4,5) f(2)
    by (intro exI[of _ "out # outs"] exI[of _ st'] exI[of _ "next_m # new"]) auto
qed

section \<open>The small instance evaluated\<close>

lemma ex_wf: "wf_attention (example_attention n)"
  by (simp add: wf_attention_def example_attention_def unit_linear_def wf_linear_def)

lemma ex_input: "is3 example_input (Suc 1) 1 1" "is3 example_memory 1 1 1"
  by (simp_all add: is3_def wft_def example_input_def example_memory_def)

lemma ex_mask: "wf_padding_mask (Some example_mask) 1 (Suc 0)" "wf_padding_mask (Some unpadded_mask) 1 (Suc 0)"
  "wf_padding_mask None 1 (Suc 0)"
  by (simp_all add: wf_padding_mask_def wft_def example_mask_def unpadded_mask_def)

lemmas upt_eval = upt_conv_Cons upt_conv_Nil

lemma e_seg: "slice0 None (Some (- 1)) example_input = Some example_memory"
  by (simp add: slice0_def example_input_def example_memory_def)

lemma e_cat: "cat0 ([example_memory] @ [example_memory]) = Some example_input"
  by (simp add: cat0_def example_input_def example_memory_def)

lemma e_lin: "apply_linear unit_linear example_input = Some example_input"
  by (simp add: apply_linear_def example_input_def unit_linear_def mk3_def row3_def at3_def dot_def fl_sum_def upt_eval)

lemma e_split: "split_heads (example_attention n) 1 example_input = Some \<lparr>shape = [1, 2, 1], data = [Fin 0, Fin 0]\<rparr>"
  by (simp add: split_heads_def view_infer_def transpose01_def example_input_def example_attention_def mk3_def at3_def upt_eval)

lemma softmax_two_zeros: "softmax_row [Fin 0, Fin 0] = [Fin (1 / 2), Fin (1 / 2)]"
  by (simp add: softmax_row_def fl_max_def fl_sub_def fl_sum_def)

lemma threshold_two_halves:
  "\<exists>t. row_threshold [Fin (1 / 2), Fin (1 / 2)] (1 / 2) = Fin t \<and> t < 1 / 2"
proof -
  define e :: real where "e = 1 / 10 ^ 8"
  have e: "0 < e" unfolding e_def by simp
  have eps: "eps8 = Fin e" by (simp add: eps8_def e_def)
  define m :: real where "m = 1 / (2 + e)"
  define v :: real where "v = ((1 / 2 - m) * (1 / 2 - m) + (1 / 2 - m) * (1 / 2 - m)) / (1 + e)"
  have m: "m < 1 / 2" unfolding m_def using e by (simp add: field_simps)
  have v: "0 \<le> v" unfolding v_def using e by simp
  have ne: "2 + e \<noteq> 0" "1 + e \<noteq> 0" using e by simp_all
  have mean: "fl_div (fl_sum [Fin (1 / 2), Fin (1 / 2)]) (fl_add (Fin 2) (Fin e)) = Fin m"
    using ne by (simp add: fl_sum_def m_def)
  have var: "fl_div (fl_sum [fl_mul (fl_sub (Fin (1 / 2)) (Fin m)) (fl_sub (Fin (1 / 2)) (Fin m)),
                             fl_mul (fl_sub (Fin (1 / 2)) (Fin m)) (fl_sub (Fin (1 / 2)) (Fin m))])
                    (fl_add (fl_sub (Fin 2) (Fin 1)) (Fin e)) = Fin v"
    using ne by (simp add: fl_sum_def fl_sub_def v_def)
  have "row_threshold [Fin (1 / 2), Fin (1 / 2)] (1 / 2)
      = fl_sub (Fin m) (fl_mul (Fin (1 / 2)) (fl_sqrt (Fin v)))"
    unfolding row_threshold_def Let_def eps by (simp add: mean var del: fl_div.simps fl_add.simps fl_mul.simps)
  also have "\<dots> = Fin (m - 1 / 2 * sqrt v)" using v by (simp add: fl_sub_def)
  finally have "row_threshold [Fin (1 / 2), Fin (1 / 2)] (1 / 2) = Fin (m - 1 / 2 * sqrt v)" .
  moreover have "0 \<le> sqrt v" using v by simp
  then have "m - 1 / 2 * sqrt v < 1 / 2" using m by linarith
  ultimately show ?thesis by blast
qed

lemma not_suppressed_two_zeros:
  "\<not> fl_lt (softmax_row [Fin 0, Fin 0] ! 0) (row_threshold (softmax_row [Fin 0, Fin 0]) (1 / 2))"
  using threshold_two_halves by (auto simp: softmax_two_zeros)

lemma e_scale: "tmap (\<lambda>x. fl_mul x (Fin 1)) \<lparr>shape = [1, 2, 1], data = [Fin 0, Fin 0]\<rparr>
    = \<lparr>shape = [1, 2, 1], data = [Fin 0, Fin 0]\<rparr>"
  by (simp add: tmap_def)

lemma e_kt: "transpose12 \<lparr>shape = [1, 2, 1], data = [Fin 0, Fin 0]\<rparr>
    = Some \<lparr>shape = [1, 1, 2], data = [Fin 0, Fin 0]\<rparr>"
  by (simp add: transpose12_def mk3_def at3_def upt_eval)

lemma e_bmm: "bmm \<lparr>shape = [1, 2, 1], data = [Fin 0, Fin 0]\<rparr> \<lparr>shape = [1, 1, 2], data = [Fin 0, Fin 0]\<rparr>
    = Some \<lparr>shape = [1, 2, 2], data = [Fin 0, Fin 0, Fin 0, Fin 0]\<rparr>"
  by (simp add: bmm_def mk3_def at3_def fl_sum_def upt_eval)

lemma e_fill: "fill_last_row (Suc 0) NInf \<lparr>shape = [1, 2, 2], data = [Fin 0, Fin 0, Fin 0, Fin 0]\<rparr>
    = Some \<lparr>shape = [1, 2, 2], data = [Fin 0, Fin 0, NInf, Fin 0]\<rparr>"
  by (simp add: fill_last_row_def mk3_def at3_def upt_eval)

lemma e_row0: "row3 example_scores 0 0 = [Fin 0, Fin 0]"
  by (simp add: row3_def at3_def example_scores_def upt_eval)

lemma e_supp: "\<exists>W. attention_suppression example_scores (1 / 2) = Some W \<and> is3 W 1 2 2 \<and> at3 W 0 0 0 = Fin 0"
proof -
  have i: "is3 example_scores 1 2 2" by (simp add: is3_def wft_def example_scores_def)
  show ?thesis
    unfolding attention_suppression_is3[OF i]
    using not_suppressed_two_zeros by (simp add: e_row0) (simp add: at3_def example_scores_def)
qed

lemma ex_fields:
  "embed_dim (example_attention n) = 1" "num_heads (example_attention n) = 1"
  "head_dim (example_attention n) = 1" "scaling (example_attention n) = 1"
  "q_proj (example_attention n) = unit_linear" "k_proj (example_attention n) = unit_linear"
  "v_proj (example_attention n) = unit_linear" "out_proj (example_attention n) = unit_linear"
  "attn_dropout_module (example_attention n) = None" "std_scale (example_attention n) = Some (1 / 2)"
  "disable_mem_on_mem_attn (example_attention n)" "tanh_on_mem (example_attention n)"
  "max_memory_size (example_attention n) = n"
  by (simp_all add: example_attention_def)

lemma ex_shape: "shape example_input = [2, 1, 1]"
  by (simp add: example_input_def)

lemma e_scores:
  "\<exists>W v. attention_scores (example_attention n) example_input [example_memory] = Some (W, v)
      \<and> at3 W 0 0 0 = Fin 0"
proof -
  from e_supp obtain W where
    W: "attention_suppression example_scores (1 / 2) = Some W" "is3 W 1 2 2" "at3 W 0 0 0 = Fin 0"
    by blast
  have sW: "shape W = [1, 2, 2]" using W(2) by (simp add: is3_def)
  have cat: "cat0 [example_memory, example_memory] = Some example_input" using e_cat by simp
  have "attention_scores (example_attention n) example_input [example_memory]
      = Some (W, \<lparr>shape = [1, 2, 1], data = [Fin 0, Fin 0]\<rparr>)"
    unfolding attention_scores_def ex_shape
    by (simp add: ex_fields e_seg cat e_lin e_split[simplified] e_scale[simplified]
        e_kt[simplified] e_bmm[simplified] e_fill[simplified]
        example_scores_def[symmetric, simplified] W(1) sW)
  then show ?thesis using W(3) by blast
qed

section \<open>The attention against its specification\<close>

lemma softmax_two_masked: "softmax_row [Fin 0, NInf] = [Fin 1, Fin 0]"
  by (simp add: softmax_row_def fl_max_def fl_sub_def fl_sum_def)

lemma heads_div: "h < H \<Longrightarrow> (b * H + h) div H = (b::nat)"
  by simp

lemma heads_lt: "b < B \<Longrightarrow> h < H \<Longrightarrow> b * H + h < B * (H::nat)"
  by (rule idx2_lt)

text \<open>
  Claim C3. With \<open>disable_mem_on_mem_attn\<close> set, on every well-formed input the
  probability of the summary query (the last query row, index \<open>L\<close>) on every
  memory-bank column is exactly zero in \<open>attention_probs\<close>, for every row \<open>n\<close> of the
  score tensor, that is for every batch element and every head. When the scores of that
  row hold neither NaN nor \<open>+inf\<close> and a segment column of the row is not \<open>-inf\<close>, the
  output of the softmax itself is zero there; otherwise the softmax gives NaN, which the
  sanitisation replaces by zero.
\<close>

theorem summary_ignores_memory:
  assumes wf: "wf_attention self"
    and x: "is3 x (Suc L) B (embed_dim self)"
    and B: "0 < B"
    and banks: "\<forall>t\<in>set banks. is3 t 1 B (embed_dim self)"
    and k: "wf_padding_mask kpm B L"
    and dis: "disable_mem_on_mem_attn self"
  shows "\<exists>W v W' R P.
           attention_scores self x banks = Some (W, v)
           \<and> apply_key_padding_mask self B (length banks) kpm W = Some W'
           \<and> attention_probs self x banks kpm = Some (R, P, v)
           \<and> (\<forall>n<B * num_heads self. \<forall>j<length banks.
                 at3 P n L j = Fin 0
                 \<and> ((\<forall>c<length banks + L. reg (at3 W' n L c))
                      \<and> (\<exists>c<length banks + L. length banks \<le> c \<and> at3 W' n L c \<noteq> NInf)
                    \<longrightarrow> at3 R n L j = Fin 0))"
proof -
  let ?N = "B * num_heads self" and ?K = "length banks + L" and ?m = "length banks"
  from attention_probs_ok[OF wf x B banks k] obtain W v W' R P where
    a: "attention_scores self x banks = Some (W, v)"
       "apply_key_padding_mask self B ?m kpm W = Some W'"
       "attention_probs self x banks kpm = Some (R, P, v)"
    and i: "is3 W' ?N (Suc L) ?K"
    and w: "disable_mem_on_mem_attn self \<longrightarrow> (\<forall>n<?N. \<forall>j<?m. at3 W n L j = NInf)"
    and e: "\<forall>n<?N. \<forall>i<Suc L. \<forall>j<?K.
                 at3 W' n i j =
                   (if ?m \<le> j \<and> padded kpm (n div num_heads self) (j - ?m)
                    then NInf else at3 W n i j)
               \<and> at3 R n i j = softmax_row (row3 W' n i) ! j
               \<and> at3 P n i j =
                   (let y = dropped self ((n * Suc L + i) * ?K + j) (at3 R n i j)
                    in if is_nan y then Fin 0 else y)"
    by blast
  have "at3 P n L j = Fin 0
        \<and> ((\<forall>c<?K. reg (at3 W' n L c)) \<and> (\<exists>c<?K. ?m \<le> c \<and> at3 W' n L c \<noteq> NInf)
            \<longrightarrow> at3 R n L j = Fin 0)"
    if n: "n < ?N" and j: "j < ?m" for n j
  proof -
    have jK: "j < ?K" using j by simp
    have w': "at3 W' n L j = NInf" using e n jK j w dis by simp
    have len: "length (row3 W' n L) = ?K" using i by (rule length_row3)
    have nth: "\<And>c. c < ?K \<Longrightarrow> row3 W' n L ! c = at3 W' n L c" using i by (rule nth_row3)
    have r: "at3 R n L j = softmax_row (row3 W' n L) ! j" using e n jK by simp
    have "softmax_row (row3 W' n L) ! j = Fin 0 \<or> softmax_row (row3 W' n L) ! j = NaN"
      by (rule softmax_row_neg_inf) (simp_all add: len nth jK w')
    then have "at3 R n L j = Fin 0 \<or> at3 R n L j = NaN" using r by simp
    then have p: "at3 P n L j = Fin 0" using e n jK sanitized_zero by simp
    have "at3 R n L j = Fin 0"
      if "\<forall>c<?K. reg (at3 W' n L c)" and "\<exists>c<?K. ?m \<le> c \<and> at3 W' n L c \<noteq> NInf"
    proof -
      have 1: "\<forall>x\<in>set (row3 W' n L). reg x"
        using that(1) len nth by (auto simp: in_set_conv_nth)
      have 2: "\<exists>x\<in>set (row3 W' n L). x \<noteq> NInf"
        using that(2) len nth by (metis nth_mem)
      show ?thesis unfolding r
        by (rule softmax_row_finite[OF 1 2]) (simp_all add: len nth jK w')
    qed
    then show ?thesis using p by blast
  qed
  then show ?thesis using a by blast
qed

theorem summary_ignores_memory_witness:
  "\<exists>W v W' R P.
      attention_scores (example_attention 1) example_input [example_memory] = Some (W, v)
      \<and> apply_key_padding_mask (example_attention 1) 1 1 None W = Some W'
      \<and> attention_probs (example_attention 1) example_input [example_memory] None = Some (R, P, v)
      \<and> at3 P 0 1 0 = Fin 0"
proof -
  have b: "\<forall>t\<in>set [example_memory]. is3 t 1 1 (embed_dim (example_attention 1))"
    using ex_input(2) by (simp add: ex_fields)
  have x: "is3 example_input (Suc 1) 1 (embed_dim (example_attention 1))"
    using ex_input(1) by (simp add: ex_fields)
  have k: "wf_padding_mask None 1 1" by (simp add: wf_padding_mask_def)
  from summary_ignores_memory[OF ex_wf x _ b k, simplified ex_fields]
  show ?thesis by auto
qed

text \<open>
  Claim C4. As stated the claim fails: a mask that pads every position of a batch row
  leaves the memory-bank columns unmasked, and a query of that row attends to them. In
  the instance, with one memory bank and the one segment frame padded, the first query
  gives the memory probability one.
\<close>

theorem padded_row_counterexample:
  "data example_mask = [True]
   \<and> probs_at (attention_probs (example_attention (- 1)) example_input [example_memory]
                (Some example_mask)) 0 0 0 = Some (Fin 1)"
proof -
  let ?A = "example_attention (- 1)"
  have b: "\<forall>t\<in>set [example_memory]. is3 t 1 1 (embed_dim ?A)"
    using ex_input(2) by (simp add: ex_fields)
  have x: "is3 example_input (Suc 1) 1 (embed_dim ?A)"
    using ex_input(1) by (simp add: ex_fields)
  have k: "wf_padding_mask (Some example_mask) 1 1" using ex_mask(1) by simp
  have B: "0 < (1::nat)" by simp
  from attention_probs_ok[OF ex_wf x B b k] obtain W v W' R P where
    a: "attention_scores ?A example_input [example_memory] = Some (W, v)"
       "attention_probs ?A example_input [example_memory] (Some example_mask) = Some (R, P, v)"
    and i: "is3 W' (1 * num_heads ?A) (Suc 1) (length [example_memory] + 1)"
    and e: "\<forall>n<1 * num_heads ?A. \<forall>i<Suc 1. \<forall>j<length [example_memory] + 1.
                 at3 W' n i j =
                   (if length [example_memory] \<le> j
                        \<and> padded (Some example_mask) (n div num_heads ?A) (j - length [example_memory])
                    then NInf else at3 W n i j)
               \<and> at3 R n i j = softmax_row (row3 W' n i) ! j
               \<and> at3 P n i j =
                   (let y = dropped ?A ((n * Suc 1 + i) * (length [example_memory] + 1) + j) (at3 R n i j)
                    in if is_nan y then Fin 0 else y)"
    by blast
  from e_scores[of "- 1"] a(1) have w: "at3 W 0 0 0 = Fin 0" by auto
  have pm: "padded (Some example_mask) 0 0" by (simp add: padded_def at2_def example_mask_def)
  have w0: "at3 W' 0 0 0 = Fin 0" using e[rule_format, of 0 0 0] w by (simp add: ex_fields)
  have w1: "at3 W' 0 0 1 = NInf" using e[rule_format, of 0 0 1] pm by (simp add: ex_fields)
  have "row3 W' 0 0 = [at3 W' 0 0 0, at3 W' 0 0 1]"
    using i by (simp add: row3_def is3_def upt_eval)
  then have row: "row3 W' 0 0 = [Fin 0, NInf]" using w0 w1 by simp
  have "at3 R 0 0 0 = Fin 1"
    using e[rule_format, of 0 0 0] by (simp add: ex_fields row softmax_two_masked)
  then have "at3 P 0 0 0 = Fin 1"
    using e[rule_format, of 0 0 0] by (simp add: ex_fields dropped_def)
  then show ?thesis using a(2) by (simp add: probs_at_def example_mask_def)
qed

text \<open>
  Claim C4, amended. When the mask marks every position of batch row \<open>b\<close> as padding,
  the attention probabilities of that row (every head, every query) are exactly zero on
  every segment column, hence on every column when no memory bank is attended to; and
  no entry of \<open>attention_probs\<close> is NaN.
\<close>

theorem padded_row_probabilities:
  assumes wf: "wf_attention self"
    and x: "is3 x (Suc L) B (embed_dim self)"
    and banks: "\<forall>t\<in>set banks. is3 t 1 B (embed_dim self)"
    and km: "wft km" "shape km = [B, L]"
    and b: "b < B"
    and row: "\<forall>j<L. at2 km b j"
  shows "\<exists>R P v.
           attention_probs self x banks (Some km) = Some (R, P, v)
           \<and> is3 P (B * num_heads self) (Suc L) (length banks + L)
           \<and> (\<forall>h<num_heads self. \<forall>i<Suc L. \<forall>j<length banks + L.
                 length banks \<le> j \<longrightarrow> at3 P (b * num_heads self + h) i j = Fin 0)
           \<and> (\<forall>n<B * num_heads self. \<forall>i<Suc L. \<forall>j<length banks + L.
                 \<not> is_nan (at3 P n i j))"
proof -
  let ?N = "B * num_heads self" and ?K = "length banks + L" and ?m = "length banks"
  let ?H = "num_heads self"
  have B: "0 < B" using b by simp
  have k: "wf_padding_mask (Some km) B L" using km by (simp add: wf_padding_mask_def)
  from attention_probs_ok[OF wf x B banks k] obtain W v W' R P where
    a: "attention_probs self x banks (Some km) = Some (R, P, v)"
    and i: "is3 W' ?N (Suc L) ?K" "is3 P ?N (Suc L) ?K"
    and e: "\<forall>n<?N. \<forall>i<Suc L. \<forall>j<?K.
                 at3 W' n i j =
                   (if ?m \<le> j \<and> padded (Some km) (n div ?H) (j - ?m)
                    then NInf else at3 W n i j)
               \<and> at3 R n i j = softmax_row (row3 W' n i) ! j
               \<and> at3 P n i j =
                   (let y = dropped self ((n * Suc L + i) * ?K + j) (at3 R n i j)
                    in if is_nan y then Fin 0 else y)"
    by (elim exE conjE)
  have zero: "\<forall>h<?H. \<forall>i<Suc L. \<forall>j<?K. ?m \<le> j \<longrightarrow> at3 P (b * ?H + h) i j = Fin 0"
  proof (intro allI impI)
    fix h i j assume h: "h < ?H" and ii: "i < Suc L" and j: "j < ?K" "?m \<le> j"
    let ?n = "b * ?H + h"
    have n: "?n < ?N" using b h by (rule heads_lt)
    have d: "?n div ?H = b" using h by (rule heads_div)
    have "padded (Some km) b (j - ?m)" using row j by (simp add: padded_def)
    then have w': "at3 W' ?n i j = NInf" using e n ii j d by simp
    have len: "length (row3 W' ?n i) = ?K" using i(1) by (rule length_row3)
    have nth: "row3 W' ?n i ! j = at3 W' ?n i j" using i(1) j(1) by (rule nth_row3)
    have "softmax_row (row3 W' ?n i) ! j = Fin 0 \<or> softmax_row (row3 W' ?n i) ! j = NaN"
      by (rule softmax_row_neg_inf) (simp_all add: len nth j w')
    then have "at3 R ?n i j = Fin 0 \<or> at3 R ?n i j = NaN" using e n ii j by simp
    then show "at3 P ?n i j = Fin 0" using e n ii j(1) sanitized_zero by simp
  qed
  have nonan: "\<forall>n<?N. \<forall>i<Suc L. \<forall>j<?K. \<not> is_nan (at3 P n i j)"
    using e by (simp add: Let_def)
  show ?thesis
    by (rule exI[of _ R], rule exI[of _ P], rule exI[of _ v])
       (intro conjI a i(2) zero nonan)
qed

theorem padded_row_probabilities_witness:
  "\<exists>R P v.
      attention_probs (example_attention (- 1)) example_input [example_memory]
        (Some example_mask) = Some (R, P, v)
      \<and> at3 P 0 0 1 = Fin 0 \<and> at3 P 0 1 1 = Fin 0 \<and> \<not> is_nan (at3 P 0 0 0)"
proof -
  let ?A = "example_attention (- 1)"
  have b: "\<forall>t\<in>set [example_memory]. is3 t 1 1 (embed_dim ?A)"
    using ex_input(2) by (simp add: ex_fields)
  have x: "is3 example_input (Suc 1) 1 (embed_dim ?A)"
    using ex_input(1) by (simp add: ex_fields)
  have km: "wft example_mask" "shape example_mask = [1, 1]"
    by (simp_all add: wft_def example_mask_def)
  have one: "(0::nat) < 1" by simp
  have row: "\<forall>j<1. at2 example_mask 0 j" by (simp add: at2_def example_mask_def)
  from padded_row_probabilities[OF ex_wf x b km one row] obtain R P v where
    a: "attention_probs ?A example_input [example_memory] (Some example_mask) = Some (R, P, v)"
    and z: "\<forall>h<num_heads ?A. \<forall>i<Suc 1. \<forall>j<length [example_memory] + 1.
                 length [example_memory] \<le> j \<longrightarrow> at3 P (0 * num_heads ?A + h) i j = Fin 0"
    and n: "\<forall>n<1 * num_heads ?A. \<forall>i<Suc 1. \<forall>j<length [example_memory] + 1.
                 \<not> is_nan (at3 P n i j)"
    by (elim exE conjE)
  have "at3 P 0 0 1 = Fin 0" using z[rule_format, of 0 0 1] by (simp add: ex_fields)
  moreover have "at3 P 0 1 1 = Fin 0" using z[rule_format, of 0 1 1] by (simp add: ex_fields)
  moreover have "\<not> is_nan (at3 P 0 0 0)" using n[rule_format, of 0 0 0] by (simp add: ex_fields)
  ultimately show ?thesis using a by blast
qed

text \<open>
  Claim C5. On an input of shape \<open>(L + 1, B, embed_dim)\<close>, a call that returns has
  appended exactly one tensor of shape \<open>(1, B, embed_dim)\<close> to the list the state held,
  whatever the state and the segment length; and the call does return when the state
  holds a list of memories of that shape.
\<close>

theorem forward_appends_one:
  assumes wf: "wf_attention self"
    and x: "is3 x (Suc L) B (embed_dim self)"
    and B: "0 < B"
    and k: "wf_padding_mask kpm B L"
  shows "(\<forall>out st'. forward self x state kpm = Some (out, st') \<longrightarrow>
            (\<exists>stored next_m. memory_banks state = Some stored
               \<and> st' = state\<lparr>memory_banks := Some (stored @ [next_m])\<rparr>
               \<and> is3 next_m 1 B (embed_dim self)))
       \<and> (\<forall>stored. memory_banks state = Some stored
               \<and> (\<forall>t\<in>set stored. is3 t 1 B (embed_dim self)) \<longrightarrow>
            (\<exists>out st'. forward self x state kpm = Some (out, st')))"
proof (intro conjI allI impI)
  fix out st' assume "forward self x state kpm = Some (out, st')"
  then show "\<exists>stored next_m. memory_banks state = Some stored
               \<and> st' = state\<lparr>memory_banks := Some (stored @ [next_m])\<rparr>
               \<and> is3 next_m 1 B (embed_dim self)"
    using x wf_attentionD(11)[OF wf] by (intro forward_SomeD) (auto simp: is3_def)
next
  fix stored assume "memory_banks state = Some stored \<and> (\<forall>t\<in>set stored. is3 t 1 B (embed_dim self))"
  then show "\<exists>out st'. forward self x state kpm = Some (out, st')"
    using forward_returns[OF wf x B _ _ k, of state stored] by blast
qed

theorem forward_appends_one_witness:
  "\<exists>out st' next_m. forward (example_attention 1) example_input
        \<lparr>memory_banks = Some [example_memory], encoder_states = None\<rparr> None = Some (out, st')
     \<and> memory_banks st' = Some [example_memory, next_m] \<and> is3 next_m 1 1 1"
proof -
  let ?A = "example_attention 1"
  let ?s = "\<lparr>memory_banks = Some [example_memory], encoder_states = None\<rparr>"
  have x: "is3 example_input (Suc 1) 1 (embed_dim ?A)"
    using ex_input(1) by (simp add: ex_fields)
  have k: "wf_padding_mask None 1 1" by (simp add: wf_padding_mask_def)
  have b: "\<forall>t\<in>set [example_memory]. is3 t 1 1 (embed_dim ?A)"
    using ex_input(2) by (simp add: ex_fields)
  have t: "(\<forall>out st'. forward ?A example_input ?s None = Some (out, st') \<longrightarrow>
            (\<exists>stored next_m. memory_banks ?s = Some stored
               \<and> st' = ?s\<lparr>memory_banks := Some (stored @ [next_m])\<rparr>
               \<and> is3 next_m 1 1 (embed_dim ?A)))
       \<and> (\<forall>stored. memory_banks ?s = Some stored
               \<and> (\<forall>t\<in>set stored. is3 t 1 1 (embed_dim ?A)) \<longrightarrow>
            (\<exists>out st'. forward ?A example_input ?s None = Some (out, st')))"
    by (rule forward_appends_one[OF ex_wf x _ k]) simp
  from t[THEN conjunct2, rule_format, of "[example_memory]"] b obtain out st' where
    f: "forward ?A example_input ?s None = Some (out, st')" by auto
  from t[THEN conjunct1, rule_format, OF f] obtain next_m where
    "st' = ?s\<lparr>memory_banks := Some ([example_memory] @ [next_m])\<rparr>" "is3 next_m 1 1 (embed_dim ?A)"
    by auto
  then show ?thesis using f by (auto simp: ex_fields)
qed

text \<open>
  Claim C7. On a well-formed input with segment length \<open>L\<close>, batch size \<open>B\<close>, \<open>H\<close>
  heads of dimension \<open>D\<close> and \<open>m\<close> memory banks attended to, both shape assertions
  pass: the scores have shape \<open>(B * H, L + 1, L + m)\<close>, the aggregated attention has
  shape \<open>(B * H, L + 1, D)\<close>, and the output returned has shape \<open>(L, B, H * D)\<close>.
\<close>

theorem forward_shapes:
  assumes wf: "wf_attention self"
    and x: "is3 x (Suc L) B (embed_dim self)"
    and B: "0 < B"
    and st: "memory_banks state = Some stored"
    and banks: "\<forall>t\<in>set stored. is3 t 1 B (embed_dim self)"
    and k: "wf_padding_mask kpm B L"
  shows "\<exists>W v A out st'.
           attention_scores self x (capped_memory_banks self stored) = Some (W, v)
           \<and> shape W = [B * num_heads self, L + 1, L + length (capped_memory_banks self stored)]
           \<and> attention_aggregate self x (capped_memory_banks self stored) kpm = Some A
           \<and> shape A = [B * num_heads self, L + 1, head_dim self]
           \<and> forward self x state kpm = Some (out, st')
           \<and> shape out = [L, B, num_heads self * head_dim self]"
proof -
  let ?banks = "capped_memory_banks self stored"
  have cb: "\<forall>t\<in>set ?banks. is3 t 1 B (embed_dim self)" using banks set_capped_memory_banks by blast
  from attention_scores_ok[OF wf x B cb] obtain W v where
    s: "attention_scores self x ?banks = Some (W, v)"
       "is3 W (B * num_heads self) (Suc L) (length ?banks + L)" by blast
  from attention_aggregate_ok[OF wf x B cb k] obtain A where
    a: "attention_aggregate self x ?banks kpm = Some A"
       "is3 A (B * num_heads self) (Suc L) (head_dim self)" by blast
  from forward_returns[OF wf x B st banks k] obtain out st' where
    f: "forward self x state kpm = Some (out, st')" "is3 out L B (embed_dim self)" by blast
  show ?thesis using s a f wf_attentionD(3)[OF wf] by (auto simp: is3_def add.commute)
qed

theorem forward_shapes_witness:
  "\<exists>W v A out st'.
      attention_scores (example_attention 1) example_input
        (capped_memory_banks (example_attention 1) [example_memory, example_memory]) = Some (W, v)
      \<and> shape W = [1, 2, 2]
      \<and> attention_aggregate (example_attention 1) example_input
          (capped_memory_banks (example_attention 1) [example_memory, example_memory]) None = Some A
      \<and> shape A = [1, 2, 1]
      \<and> forward (example_attention 1) example_input
          \<lparr>memory_banks = Some [example_memory, example_memory], encoder_states = None\<rparr> None
          = Some (out, st')
      \<and> shape out = [1, 1, 1]"
proof -
  let ?A = "example_attention 1"
  let ?s = "\<lparr>memory_banks = Some [example_memory, example_memory], encoder_states = None\<rparr>"
  have x: "is3 example_input (Suc 1) 1 (embed_dim ?A)"
    using ex_input(1) by (simp add: ex_fields)
  have k: "wf_padding_mask None 1 1" by (simp add: wf_padding_mask_def)
  have b: "\<forall>t\<in>set [example_memory, example_memory]. is3 t 1 1 (embed_dim ?A)"
    using ex_input(2) by (simp add: ex_fields)
  have st: "memory_banks ?s = Some [example_memory, example_memory]" by simp
  have c: "length (capped_memory_banks ?A [example_memory, example_memory]) = 1"
    by (simp add: length_capped_memory_banks ex_fields)
  from forward_shapes[OF ex_wf x _ st b k] show ?thesis by (simp add: ex_fields c numeral_2_eq_2)
qed

text \<open>
  Claim C10. A key padding mask with no true entry is the absent mask: the output and
  the state returned are those of the call with \<open>None\<close>, on every input and state.
\<close>

theorem forward_unpadded_mask:
  assumes "\<not> tensor_any kpm"
  shows "forward self x state (Some kpm) = forward self x state None"
  using assms by (rule forward_no_padding)

theorem forward_unpadded_mask_witness:
  "\<not> tensor_any unpadded_mask
   \<and> forward (example_attention 1) example_input empty_state (Some unpadded_mask)
       = forward (example_attention 1) example_input empty_state None
   \<and> forward (example_attention 1) example_input empty_state None \<noteq> None"
proof -
  let ?A = "example_attention 1"
  have n: "\<not> tensor_any unpadded_mask" by (simp add: tensor_any_def unpadded_mask_def)
  have x: "is3 example_input (Suc 1) 1 (embed_dim ?A)"
    using ex_input(1) by (simp add: ex_fields)
  have k: "wf_padding_mask None 1 1" by (simp add: wf_padding_mask_def)
  have "\<exists>out next_m. forward ?A example_input empty_state None
             = Some (out, empty_state\<lparr>memory_banks := Some ([] @ [next_m])\<rparr>)
           \<and> is3 out 1 1 (embed_dim ?A) \<and> is3 next_m 1 1 (embed_dim ?A)"
    by (rule forward_returns[OF ex_wf x _ _ _ k]) (simp_all add: empty_state_def)
  then have "forward ?A example_input empty_state None \<noteq> None" by auto
  then show ?thesis using n forward_unpadded_mask[OF n, of ?A example_input empty_state] by simp
qed

text \<open>
  Claim C1. As stated the claim fails: the cap applies to the local list one call
  attends to, and the new memory is appended to the list in the state, which is never
  cut. With cap 1 two calls leave two memories in the state, and with cap 0 one call
  leaves one.
\<close>

theorem memory_bank_uncapped_counterexample:
  "stored_length (forward_calls (example_attention 1)
      [(example_input, None), (example_input, None)] empty_state) = Some 2
   \<and> min 2 (nat (max_memory_size (example_attention 1))) = 1
   \<and> stored_length (forward_calls (example_attention 0) [(example_input, None)] empty_state) = Some 1"
proof -
  have x: "\<And>n. is3 example_input (Suc 1) 1 (embed_dim (example_attention n))"
    using ex_input(1) by (simp add: ex_fields)
  have k: "wf_padding_mask None 1 1" by (simp add: wf_padding_mask_def)
  have st: "memory_banks empty_state = Some []" by (simp add: empty_state_def)
  have "\<exists>outs st' new. forward_calls (example_attention 1)
            [(example_input, None), (example_input, None)] empty_state = Some (outs, st')
           \<and> memory_banks st' = Some ([] @ new)
           \<and> length new = length [(example_input, None :: bool tensor option), (example_input, None)]
           \<and> length outs = length [(example_input, None :: bool tensor option), (example_input, None)]
           \<and> (\<forall>t\<in>set new. is3 t 1 1 (embed_dim (example_attention 1)))"
    by (rule forward_calls_ok[OF ex_wf _ _ st]) (use x k in auto)
  then have 1: "stored_length (forward_calls (example_attention 1)
      [(example_input, None), (example_input, None)] empty_state) = Some 2"
    by (auto simp: stored_length_def)
  have "\<exists>outs st' new. forward_calls (example_attention 0)
            [(example_input, None)] empty_state = Some (outs, st')
           \<and> memory_banks st' = Some ([] @ new)
           \<and> length new = length [(example_input, None :: bool tensor option)]
           \<and> length outs = length [(example_input, None :: bool tensor option)]
           \<and> (\<forall>t\<in>set new. is3 t 1 1 (embed_dim (example_attention 0)))"
    by (rule forward_calls_ok[OF ex_wf _ _ st]) (use x k in auto)
  then have 2: "stored_length (forward_calls (example_attention 0)
      [(example_input, None)] empty_state) = Some 1"
    by (auto simp: stored_length_def)
  show ?thesis using 1 2 by (simp add: ex_fields)
qed

text \<open>
  Claim C1, amended. For a cap \<open>N \<ge> 0\<close> and an empty memory bank at the start, after
  \<open>k\<close> calls the list in the state has length \<open>k\<close>, and the list a call attends to
  from there (the stored list after the cap) has length \<open>min k N\<close>.
\<close>

theorem memory_bank_growth:
  assumes wf: "wf_attention self" and B: "0 < B"
    and ins: "\<forall>(x, kpm)\<in>set ins. \<exists>L. is3 x (Suc L) B (embed_dim self) \<and> wf_padding_mask kpm B L"
    and st: "memory_banks state = Some []"
    and N: "0 \<le> max_memory_size self"
  shows "\<exists>outs st' stored. forward_calls self ins state = Some (outs, st')
           \<and> memory_banks st' = Some stored
           \<and> length stored = length ins
           \<and> length (capped_memory_banks self stored) = min (length ins) (nat (max_memory_size self))"
proof -
  from forward_calls_ok[OF wf B ins st] obtain outs st' new where
    "forward_calls self ins state = Some (outs, st')" "memory_banks st' = Some ([] @ new)"
    "length new = length ins" by auto
  then show ?thesis using length_capped_memory_banks[OF N, of new] by auto
qed

theorem memory_bank_growth_witness:
  "\<exists>outs st' stored. forward_calls (example_attention 1)
        [(example_input, None), (example_input, None)] empty_state = Some (outs, st')
     \<and> memory_banks st' = Some stored \<and> length stored = 2
     \<and> length (capped_memory_banks (example_attention 1) stored) = 1"
proof -
  have x: "is3 example_input (Suc 1) 1 (embed_dim (example_attention 1))"
    using ex_input(1) by (simp add: ex_fields)
  have k: "wf_padding_mask None 1 1" by (simp add: wf_padding_mask_def)
  have st: "memory_banks empty_state = Some []" by (simp add: empty_state_def)
  have ins: "\<forall>(x, kpm)\<in>set [(example_input, None), (example_input, None)].
       \<exists>L. is3 x (Suc L) 1 (embed_dim (example_attention 1)) \<and> wf_padding_mask kpm 1 L"
    using x k by auto
  have N: "0 \<le> max_memory_size (example_attention 1)" by (simp add: ex_fields)
  from memory_bank_growth[OF ex_wf _ ins st N] show ?thesis
    by (simp add: ex_fields numeral_2_eq_2 del: forward_calls.simps)
qed

section \<open>The summary query of the layer\<close>

lemma map_shift_upt: "lo \<le> hi \<Longrightarrow> map (\<lambda>r. f (lo + r)) [0..<hi - lo] = map f [lo..<hi]"
  by (simp add: list_eq_iff_nth_eq)

lemma mean_dim0_mk3:
  "mean_dim0_keepdim (mk3 a b c g)
     = Some (mk3 1 b c (\<lambda>i j k. fl_div (fl_sum (map (\<lambda>r. g r j k) [0..<a])) (Fin (real a))))"
proof -
  have "mk3 1 b c (\<lambda>i j k. fl_div (fl_sum (map (\<lambda>r. at3 (mk3 a b c g) r j k) [0..<a])) (Fin (real a)))
      = mk3 1 b c (\<lambda>i j k. fl_div (fl_sum (map (\<lambda>r. g r j k) [0..<a])) (Fin (real a)))"
  proof (rule mk3_cong)
    fix i j k assume r: "j < b" "k < c"
    have "map (\<lambda>r. at3 (mk3 a b c g) r j k) [0..<a] = map (\<lambda>r. g r j k) [0..<a]"
      by (rule map_cong) (use r in auto)
    then show "fl_div (fl_sum (map (\<lambda>r. at3 (mk3 a b c g) r j k) [0..<a])) (Fin (real a))
        = fl_div (fl_sum (map (\<lambda>r. g r j k) [0..<a])) (Fin (real a))" by (simp only:)
  qed
  then show ?thesis by (simp add: mean_dim0_keepdim_def)
qed

lemma summarization_query_ok:
  assumes y: "is3 y T B D"
    and b: "py_bounds (Some (left_context self)) (Some (int T - right_context self)) T = (lo, hi)"
  shows "summarization_query self [T, B, D] y =
     Some (mk3 1 B D (\<lambda>i j k.
       if left_context self < int T - right_context self
       then fl_div (fl_sum (map (\<lambda>t. at3 y t j k) [lo..<hi])) (Fin (real (hi - lo)))
       else Fin 0))"
proof (cases "left_context self < int T - right_context self")
  case True
  have s: "slice0 (Some (left_context self)) (Some (int T - right_context self)) y
      = Some (mk3 (hi - lo) B D (\<lambda>i j k. at3 y (lo + i) j k))"
    using y b by (rule slice0_is3)
  have "mk3 1 B D (\<lambda>i j k. fl_div (fl_sum (map (\<lambda>r. at3 y (lo + r) j k) [0..<hi - lo])) (Fin (real (hi - lo))))
      = mk3 1 B D (\<lambda>i j k. fl_div (fl_sum (map (\<lambda>t. at3 y t j k) [lo..<hi])) (Fin (real (hi - lo))))"
  proof (cases "lo \<le> hi")
    case True
    then show ?thesis by (simp add: map_shift_upt[where f="\<lambda>t. at3 y t _ _"])
  next
    case False
    then show ?thesis by simp
  qed
  then show ?thesis using True s
    by (simp add: summarization_query_def summarize_segment_def mean_dim0_mk3)
next
  case False
  then show ?thesis by (simp add: summarization_query_def)
qed

lemma py_bounds_core:
  "0 \<le> l \<Longrightarrow> 0 \<le> r \<Longrightarrow> l < int T - r \<Longrightarrow> py_bounds (Some l) (Some (int T - r)) T = (nat l, T - nat r)"
  by (auto simp: py_bounds_def py_index_def)

lemma layer_attention_input_is3:
  assumes x: "is3 x T B D"
    and n: "pre_attention_norm self x = Some y"
    and y: "is3 y T B D"
  shows "\<exists>z. layer_attention_input self x = Some z \<and> is3 z (Suc T) B D"
proof -
  obtain lo hi where
    b: "py_bounds (Some (left_context self)) (Some (int T - right_context self)) T = (lo, hi)"
    by (cases "py_bounds (Some (left_context self)) (Some (int T - right_context self)) T") simp
  let ?g = "\<lambda>i j k.
       if left_context self < int T - right_context self
       then fl_div (fl_sum (map (\<lambda>t. at3 y t j k) [lo..<hi])) (Fin (real (hi - lo)))
       else Fin 0"
  let ?z = "mk3 (T + 1) B D (\<lambda>i j k. if i < T then at3 y i j k else ?g i j k)"
  have sx: "shape x = [T, B, D]" using x by (simp add: is3_def)
  have q: "summarization_query self [T, B, D] y = Some (mk3 1 B D ?g)"
    using y b by (rule summarization_query_ok)
  have "cat0 [mk3 T B D (at3 y), mk3 1 B D ?g] = Some ?z" by (simp only: cat0_pair_mk3)
  then have c: "cat0 [y, mk3 1 B D ?g] = Some ?z" using is3_eq[OF y] by simp
  have "layer_attention_input self x = Some ?z"
    using n q c by (simp add: layer_attention_input_def sx)
  then show ?thesis by (intro exI[of _ ?z]) simp
qed

text \<open>
  Claim C8, amended. Let \<open>y\<close> be the layer input after the normalisation that
  precedes the attention (the input itself unless \<open>normalize_before\<close> is set), of the
  shape \<open>(T, B, D)\<close> of the input. The tensor handed to the attention is \<open>y\<close> with one
  more time step. That last step is, element by element, the mean over time of
  \<open>y[left_context : T - right_context]\<close> (rows \<open>lo\<close> to \<open>hi - 1\<close>, the bounds of the
  Python slice, which are \<open>left_context\<close> and \<open>T - right_context\<close> for contexts that
  are not negative) when \<open>left_context < T - right_context\<close>, and zero otherwise.
\<close>

theorem summary_query_is_mean:
  assumes x: "is3 x T B D"
    and n: "pre_attention_norm self x = Some y"
    and y: "is3 y T B D"
    and b: "py_bounds (Some (left_context self)) (Some (int T - right_context self)) T = (lo, hi)"
  shows "\<exists>z. layer_attention_input self x = Some z \<and> is3 z (Suc T) B D
           \<and> (\<not> normalize_before self \<longrightarrow> y = x)
           \<and> (0 \<le> left_context self \<and> 0 \<le> right_context self
                \<and> left_context self < int T - right_context self
              \<longrightarrow> lo = nat (left_context self) \<and> hi = T - nat (right_context self))
           \<and> (\<forall>b<B. \<forall>d<D.
                 (\<forall>t<T. at3 z t b d = at3 y t b d)
                 \<and> at3 z T b d =
                     (if left_context self < int T - right_context self
                      then fl_div (fl_sum (map (\<lambda>t. at3 y t b d) [lo..<hi])) (Fin (real (hi - lo)))
                      else Fin 0))"
proof -
  let ?q = "mk3 1 B D (\<lambda>i j k.
       if left_context self < int T - right_context self
       then fl_div (fl_sum (map (\<lambda>t. at3 y t j k) [lo..<hi])) (Fin (real (hi - lo)))
       else Fin 0)"
  let ?z = "mk3 (T + 1) B D (\<lambda>i j k. if i < T then at3 y i j k else
       (if left_context self < int T - right_context self
       then fl_div (fl_sum (map (\<lambda>t. at3 y t j k) [lo..<hi])) (Fin (real (hi - lo)))
       else Fin 0))"
  have sx: "shape x = [T, B, D]" using x by (simp add: is3_def)
  have q: "summarization_query self [T, B, D] y = Some ?q" using y b by (rule summarization_query_ok)
  have "cat0 [mk3 T B D (at3 y), ?q] = Some ?z" by (simp only: cat0_pair_mk3) 
  then have c: "cat0 [y, ?q] = Some ?z" using is3_eq[OF y] by simp
  have z: "layer_attention_input self x = Some ?z"
    using n q c by (simp add: layer_attention_input_def sx)
  have "\<not> normalize_before self \<longrightarrow> y = x" using n by (auto simp: pre_attention_norm_def)
  moreover have "0 \<le> left_context self \<and> 0 \<le> right_context self
                \<and> left_context self < int T - right_context self
              \<longrightarrow> lo = nat (left_context self) \<and> hi = T - nat (right_context self)"
    using b py_bounds_core[of "left_context self" "right_context self" T] by auto
  ultimately show ?thesis using z by (intro exI[of _ ?z]) simp
qed

lemma sqrt_eps_pos: "sqrt (1 / 10 ^ 5) \<noteq> (0::real)"
  by simp

lemma e_norm: "apply_layer_norm unit_norm example_frame = Some example_memory"
proof -
  have "layer_norm_row unit_norm [Fin 1] = [Fin 0]"
    by (simp add: layer_norm_row_def unit_norm_def fl_sum_def fl_sub_def Let_def)
  then show ?thesis
    by (simp add: apply_layer_norm_def example_frame_def example_memory_def unit_norm_def
        mk3_def row3_def at3_def)
qed

lemma e_pre_norm: "pre_attention_norm (example_layer True) example_frame = Some example_memory"
  by (simp add: pre_attention_norm_def example_layer_def e_norm)

lemma e_mean_frame:
  "(slice0 (Some 0) (Some 1) example_frame \<bind> mean_dim0_keepdim)
     = Some \<lparr>shape = [1, 1, 1], data = [Fin 1]\<rparr>"
  by (simp add: slice0_def py_bounds_def py_index_def example_frame_def mean_dim0_keepdim_def
      mk3_def at3_def fl_sum_def)

lemma e_attention_input:
  "layer_attention_input (example_layer True) example_frame
     = Some \<lparr>shape = [2, 1, 1], data = [Fin 0, Fin 0]\<rparr>"
proof -
  have s: "slice0 (Some 0) (Some 1) example_memory = Some example_memory"
    by (simp add: slice0_def py_bounds_def py_index_def example_memory_def)
  have m: "mean_dim0_keepdim example_memory = Some example_memory"
    by (simp add: example_memory_def mean_dim0_keepdim_def mk3_def at3_def fl_sum_def)
  have q: "summarization_query (example_layer True) [1, 1, 1] example_memory = Some example_memory"
    by (simp add: summarization_query_def summarize_segment_def example_layer_def s m)
  have c: "cat0 [example_memory, example_memory] = Some \<lparr>shape = [2, 1, 1], data = [Fin 0, Fin 0]\<rparr>"
    by (simp add: cat0_def example_memory_def)
  show ?thesis
  proof -
    have sh: "shape example_frame = [1, 1, 1]" by (simp add: example_frame_def)
    show ?thesis by (simp add: layer_attention_input_def sh e_pre_norm q[simplified] c)
  qed
qed

text \<open>
  Claim C8. As stated the claim fails when \<open>normalize_before\<close> is set: the layer
  summarises \<open>x\<close> after the layer norm, not the layer input. On the one-frame input
  \<open>1\<close> the norm gives \<open>0\<close>, and the summary query appended is \<open>0\<close>, while the
  mean over the core region of the input is \<open>1\<close>.
\<close>

theorem summary_query_counterexample:
  "normalize_before (example_layer True)
   \<and> left_context (example_layer True) < 1 - right_context (example_layer True)
   \<and> shape example_frame = [1, 1, 1]
   \<and> layer_attention_input (example_layer True) example_frame
        = Some \<lparr>shape = [2, 1, 1], data = [Fin 0, Fin 0]\<rparr>
   \<and> (slice0 (Some (left_context (example_layer True)))
               (Some (1 - right_context (example_layer True))) example_frame
          \<bind> mean_dim0_keepdim)
        = Some \<lparr>shape = [1, 1, 1], data = [Fin 1]\<rparr>"
  using e_attention_input e_mean_frame by (simp add: example_layer_def example_frame_def)

theorem summary_query_is_mean_witness:
  "\<exists>z. layer_attention_input (example_layer True) example_frame = Some z \<and> is3 z 2 1 1
      \<and> at3 z 0 0 0 = Fin 0 \<and> at3 z 1 0 0 = Fin 0"
proof -
  have x: "is3 example_frame 1 1 1" by (simp add: is3_def wft_def example_frame_def)
  have y: "is3 example_memory 1 1 1" by (simp add: is3_def wft_def example_memory_def)
  have b: "py_bounds (Some (left_context (example_layer True)))
             (Some (int 1 - right_context (example_layer True))) 1 = (0, 1)"
    by (simp add: py_bounds_def py_index_def example_layer_def)
  have v: "at3 example_memory 0 0 0 = Fin 0" by (simp add: at3_def example_memory_def)
  from summary_query_is_mean[OF x e_pre_norm y b] obtain z where
    z: "layer_attention_input (example_layer True) example_frame = Some z" "is3 z (Suc 1) 1 1"
    and e: "\<forall>b<1. \<forall>d<1.
                 (\<forall>t<1. at3 z t b d = at3 example_memory t b d)
                 \<and> at3 z 1 b d =
                     (if left_context (example_layer True) < int 1 - right_context (example_layer True)
                      then fl_div (fl_sum (map (\<lambda>t. at3 example_memory t b d) [0..<1])) (Fin (real (1 - 0)))
                      else Fin 0)"
    by blast
  have "at3 z 0 0 0 = Fin 0" using e v by simp
  moreover have "at3 z 1 0 0 = Fin 0"
    using e[rule_format, of 0 0] v by (simp add: example_layer_def fl_sum_def)
  ultimately show ?thesis using z by (auto simp: numeral_2_eq_2)
qed

section \<open>The encoder\<close>

lemma layer_outputs_update:
  "k < i \<Longrightarrow> layer_outputs m ls i x (states[k := s]) = layer_outputs m ls i x states"
  by (induction ls arbitrary: i x) (auto split: option.splits)

lemma run_layers_outputs:
  assumes "run_layers self m ls i x states = Some (x', states')"
  shows "length states' = length states
       \<and> length (layer_outputs m ls i x states) = length ls
       \<and> (\<forall>j<length ls. \<exists>y st t. layer_outputs m ls i x states ! j = (y, st)
              \<and> trim_context self y = Some t
              \<and> states' ! (i + j) = st\<lparr>encoder_states := Some t\<rparr>)
       \<and> (\<forall>j<i. states' ! j = states ! j)"
  using assms
proof (induction ls arbitrary: i x states)
  case Nil
  then show ?case by simp
next
  case (Cons l ls)
  from Cons.prems have i: "i < length states" by (simp split: if_splits)
  from Cons.prems i obtain y st where
    f: "layer_forward l x (states ! i) (Some m) = Some (y, st)"
    by (cases "layer_forward l x (states ! i) (Some m)") auto
  from Cons.prems i f obtain t where
    t: "trim_context self y = Some t"
    by (cases "trim_context self y") auto
  from Cons.prems i f t have
    r: "run_layers self m ls (Suc i) y (states[i := st\<lparr>encoder_states := Some t\<rparr>]) = Some (x', states')"
    by simp
  let ?s = "states[i := st\<lparr>encoder_states := Some t\<rparr>]"
  note ih = Cons.IH[OF r]
  have lo: "layer_outputs m (l # ls) i x states = (y, st) # layer_outputs m ls (Suc i) y states"
    using f by simp
  have up: "layer_outputs m ls (Suc i) y ?s = layer_outputs m ls (Suc i) y states"
    by (rule layer_outputs_update) simp
  have at_i: "states' ! i = st\<lparr>encoder_states := Some t\<rparr>" using ih i by simp
  have "\<exists>y' st' t'. layer_outputs m (l # ls) i x states ! j = (y', st')
              \<and> trim_context self y' = Some t'
              \<and> states' ! (i + j) = st'\<lparr>encoder_states := Some t'\<rparr>"
    if j: "j < length (l # ls)" for j
  proof (cases j)
    case 0
    then show ?thesis using lo t at_i by simp
  next
    case (Suc j')
    then have "j' < length ls" using j by simp
    with ih obtain y' st' t' where
      "layer_outputs m ls (Suc i) y ?s ! j' = (y', st')" "trim_context self y' = Some t'"
      "states' ! (Suc i + j') = st'\<lparr>encoder_states := Some t'\<rparr>" by blast
    then show ?thesis using Suc lo up by simp
  qed
  moreover have "\<forall>j<i. states' ! j = states ! j" using ih by auto
  moreover have "length (layer_outputs m (l # ls) i x states) = length (l # ls)"
    using ih lo up by simp
  moreover have "length states' = length states" using ih by simp
  ultimately show ?case by blast
qed

lemma trim_bounds:
  assumes "0 \<le> left_context_after_stride self" and "0 \<le> right_context_after_stride self"
  shows "py_bounds (Some (left_context_after_stride self)) (trim_stop self) T
     = (min (nat (left_context_after_stride self)) T, T - nat (right_context_after_stride self))"
  using assms by (auto simp: py_bounds_def py_index_def trim_stop_def)

lemma trim_context_is3:
  assumes l: "0 \<le> left_context_after_stride self" and r: "0 \<le> right_context_after_stride self"
    and y: "is3 y T B D"
  shows "trim_context self y =
     Some (mk3 (T - nat (right_context_after_stride self) - nat (left_context_after_stride self)) B D
            (\<lambda>i j k. at3 y (nat (left_context_after_stride self) + i) j k))"
proof -
  let ?l = "nat (left_context_after_stride self)" and ?r = "nat (right_context_after_stride self)"
  have "trim_context self y = Some (mk3 (T - ?r - min ?l T) B D (\<lambda>i j k. at3 y (min ?l T + i) j k))"
    unfolding trim_context_def by (rule slice0_is3[OF y trim_bounds[OF l r]])
  also have "mk3 (T - ?r - min ?l T) B D (\<lambda>i j k. at3 y (min ?l T + i) j k)
      = mk3 (T - ?r - ?l) B D (\<lambda>i j k. at3 y (?l + i) j k)"
  proof (cases "?l \<le> T")
    case True
    then show ?thesis by (simp add: min_def)
  next
    case False
    then have "T - ?r - min ?l T = 0" "T - ?r - ?l = 0" by simp_all
    then show ?thesis by (simp add: mk3_def)
  qed
  finally show ?thesis .
qed

lemma filter_shift_length:
  assumes "lo \<le> hi"
  shows "length (filter (\<lambda>k. P (lo + k)) [0..<hi - lo]) = length (filter P [lo..<hi])"
proof -
  have "[lo..<hi] = map (\<lambda>k. lo + k) [0..<hi - lo]"
    using assms by (simp add: list_eq_iff_nth_eq)
  then have "filter P [lo..<hi] = map (\<lambda>k. lo + k) (filter (P \<circ> (\<lambda>k. lo + k)) [0..<hi - lo])"
    by (simp only: filter_map)
  then have "length (filter P [lo..<hi]) = length (filter (P \<circ> (\<lambda>k. lo + k)) [0..<hi - lo])"
    by (simp only: length_map)
  then show ?thesis by (simp only: comp_def)
qed

lemma count_unpadded_trimmed:
  assumes l: "0 \<le> left_context_after_stride self" and r: "0 \<le> right_context_after_stride self"
    and m: "wft m" "shape m = [B, T]"
  shows "(slice1 (Some (left_context_after_stride self)) (trim_stop self) m \<bind> count_unpadded)
     = Some (mk2 B 1 (\<lambda>b j. int (length (filter (\<lambda>t. \<not> at2 m b t)
               [nat (left_context_after_stride self)..<T - nat (right_context_after_stride self)]))))"
proof -
  define l' r' where "l' = nat (left_context_after_stride self)"
    and "r' = nat (right_context_after_stride self)"
  define lo hi where "lo = min l' T" and "hi = T - r'"
  define sl where "sl = mk2 B (hi - lo) (\<lambda>i j. at2 m i (lo + j))"
  have s: "slice1 (Some (left_context_after_stride self)) (trim_stop self) m = Some sl"
    using m trim_bounds[OF l r, of T] by (simp add: slice1_def sl_def lo_def hi_def l'_def r'_def)
  have c: "count_unpadded sl
      = Some (mk2 B 1 (\<lambda>i j. int (length (filter (\<lambda>k. \<not> at2 sl i k) [0..<hi - lo]))))"
    by (simp add: count_unpadded_def sl_def)
  have e: "mk2 B 1 (\<lambda>i j. int (length (filter (\<lambda>k. \<not> at2 sl i k) [0..<hi - lo])))
      = mk2 B 1 (\<lambda>b j. int (length (filter (\<lambda>t. \<not> at2 m b t) [l'..<hi])))"
  proof (rule mk2_cong)
    fix i j assume i: "i < B"
    have "\<And>k. k \<in> set [0..<hi - lo] \<Longrightarrow> (\<not> at2 sl i k) = (\<not> at2 m i (lo + k))"
      unfolding sl_def using i by simp
    then have f: "filter (\<lambda>k. \<not> at2 sl i k) [0..<hi - lo]
        = filter (\<lambda>k. \<not> at2 m i (lo + k)) [0..<hi - lo]"
      by (rule filter_cong[OF refl])
    have "length (filter (\<lambda>k. \<not> at2 m i (lo + k)) [0..<hi - lo])
        = length (filter (\<lambda>t. \<not> at2 m i t) [l'..<hi])"
    proof (cases "l' \<le> hi")
      case True
      then have "lo = l'" unfolding lo_def hi_def by simp
      then show ?thesis using filter_shift_length[OF True, of "\<lambda>t. \<not> at2 m i t"] by simp
    next
      case False
      then have "hi - lo = 0" unfolding lo_def hi_def by simp
      then show ?thesis using False by simp
    qed
    then show "int (length (filter (\<lambda>k. \<not> at2 sl i k) [0..<hi - lo]))
        = int (length (filter (\<lambda>t. \<not> at2 m i t) [l'..<hi]))"
      unfolding f by simp
  qed
  show ?thesis unfolding s using c e by (simp add: l'_def hi_def r'_def)
qed

text \<open>
  Claim C9. For a call of the encoder that returns, with \<open>x\<close> and the padding mask
  \<open>m\<close> of shape \<open>(B, T)\<close> what the front end produced, and context sizes that are not
  negative: every layer \<open>i\<close> has run on the output of the layer before it and on its own
  state, and the state returned for it is the state it left with \<open>encoder_states\<close> set
  to its output trimmed; trimming a tensor of \<open>T'\<close> rows keeps rows \<open>left\<close> to
  \<open>T' - right - 1\<close>; the lengths count, per batch element, the unpadded positions of
  the mask in that same range; and the first value returned is \<open>encoder_states\<close> of the
  last state, which is the trimmed output of the last layer when there is one state per
  layer, as there is when the caller gives none or gives back the states of a call
  before. In the instance two layers with one row of context on each side run on four
  frames for a batch of two, the second element padded from the third position on: each
  state holds rows 1 and 2 of the four its layer returned, and the lengths are 2 and 1.
\<close>

theorem encoder_forward_trims:
  assumes f: "encoder_forward self src_tokens src_lengths states = Some (out, lengths, states')"
    and s: "subsample self src_tokens src_lengths = Some (x, m)"
    and m: "wft m" "shape m = [B, T]"
    and l: "0 \<le> left_context_after_stride self"
    and r: "0 \<le> right_context_after_stride self"
  shows "length (layer_outputs m (transformer_layers self) 0 x (initial_states self states))
           = length (transformer_layers self)
       \<and> (\<forall>i<length (transformer_layers self). \<exists>y st t.
              layer_outputs m (transformer_layers self) 0 x (initial_states self states) ! i = (y, st)
              \<and> trim_context self y = Some t
              \<and> states' ! i = st\<lparr>encoder_states := Some t\<rparr>)
       \<and> (\<forall>y T' B' D. is3 y T' B' D \<longrightarrow>
              trim_context self y =
                Some (mk3 (T' - nat (right_context_after_stride self)
                              - nat (left_context_after_stride self)) B' D
                       (\<lambda>i j k. at3 y (nat (left_context_after_stride self) + i) j k)))
       \<and> lengths = mk2 B 1 (\<lambda>b j. int (length (filter (\<lambda>t. \<not> at2 m b t)
               [nat (left_context_after_stride self)..<T - nat (right_context_after_stride self)])))
       \<and> out = encoder_states (last states')
       \<and> (length (initial_states self states) = length (transformer_layers self) \<longrightarrow>
            (\<exists>y st t. last (layer_outputs m (transformer_layers self) 0 x (initial_states self states))
                         = (y, st)
               \<and> trim_context self y = Some t \<and> out = Some t))"
proof -
  let ?ls = "transformer_layers self" and ?ss = "initial_states self states"
  let ?outs = "layer_outputs m ?ls 0 x ?ss"
  from f s obtain x' where
    run: "run_layers self m ?ls 0 x ?ss = Some (x', states')"
    by (auto simp: encoder_forward_def initial_states_def split: bind_splits if_splits)
  from f s run have
    len: "(slice1 (Some (left_context_after_stride self)) (trim_stop self) m \<bind> count_unpadded)
            = Some lengths"
    and ne: "states' \<noteq> []" and out: "out = encoder_states (last states')"
    by (auto simp: encoder_forward_def initial_states_def split: bind_splits if_splits)
  note ro = run_layers_outputs[OF run]
  have 1: "length ?outs = length ?ls" using ro by simp
  have 2: "\<forall>i<length ?ls. \<exists>y st t. ?outs ! i = (y, st) \<and> trim_context self y = Some t
              \<and> states' ! i = st\<lparr>encoder_states := Some t\<rparr>"
    using ro by simp
  have 3: "\<forall>y T' B' D. is3 y T' B' D \<longrightarrow>
              trim_context self y =
                Some (mk3 (T' - nat (right_context_after_stride self)
                              - nat (left_context_after_stride self)) B' D
                       (\<lambda>i j k. at3 y (nat (left_context_after_stride self) + i) j k))"
    using trim_context_is3[OF l r] by blast
  have 4: "lengths = mk2 B 1 (\<lambda>b j. int (length (filter (\<lambda>t. \<not> at2 m b t)
               [nat (left_context_after_stride self)..<T - nat (right_context_after_stride self)])))"
    using len count_unpadded_trimmed[OF l r m] by simp
  have 5: "\<exists>y st t. last ?outs = (y, st) \<and> trim_context self y = Some t \<and> out = Some t"
    if eq: "length ?ss = length ?ls"
  proof -
    have n: "length states' = length ?ls" using ro eq by simp
    then have pos: "0 < length ?ls" using ne by auto
    let ?k = "length ?ls - 1"
    from 2 pos obtain y st t where
      k: "?outs ! ?k = (y, st)" "trim_context self y = Some t"
         "states' ! ?k = st\<lparr>encoder_states := Some t\<rparr>" by (metis diff_less zero_less_one)
    have "last states' = states' ! ?k" using ne n by (simp add: last_conv_nth)
    moreover have "?outs \<noteq> []" using 1 pos by auto
    then have "last ?outs = ?outs ! ?k" using 1 by (simp add: last_conv_nth)
    ultimately show ?thesis using k out by simp
  qed
  show ?thesis using 1 2 3 4 5 out by blast
qed

lemma bop3_is3:
  assumes "is3 x a b c" and "is3 y a b c"
  shows "\<exists>z. bop3 f x y = Some z \<and> is3 z a b c"
proof -
  have "bop3 f (mk3 a b c (at3 x)) (mk3 a b c (at3 y))
      = Some (mk3 a b c (\<lambda>i j k. f (at3 x i j k) (at3 y i j k)))" by (rule bop3_mk3_same)
  then have "bop3 f x y = Some (mk3 a b c (\<lambda>i j k. f (at3 x i j k) (at3 y i j k)))"
    using is3_eq[OF assms(1)] is3_eq[OF assms(2)] by simp
  then show ?thesis by simp
qed

lemma unit_norm_is3:
  "is3 x a b 1 \<Longrightarrow> \<exists>z. apply_layer_norm unit_norm x = Some z \<and> is3 z a b 1"
  by (simp add: apply_layer_norm_def unit_norm_def is3_def)

lemma context_layer_fields:
  "self_attn context_layer = example_attention 1" "normalize_before context_layer = False"
  "self_attn_layer_norm context_layer = apply_layer_norm unit_norm"
  "final_layer_norm context_layer = apply_layer_norm unit_norm"
  "dropout_module context_layer = Some" "activation_dropout_module context_layer = Some"
  "activation_fn context_layer = Some" "fc1 context_layer = Some" "fc2 context_layer = Some"
  "left_context context_layer = 1" "right_context context_layer = 1"
  by (simp_all add: context_layer_def example_layer_def)

lemma context_layer_forward:
  assumes x: "is3 x T B 1" and B: "0 < B" and m: "wft m" "shape m = [B, T]"
  shows "\<exists>y st. layer_forward context_layer x
            \<lparr>memory_banks = None, encoder_states = None\<rparr> (Some m) = Some (y, st)
          \<and> is3 y T B 1"
proof -
  let ?L = context_layer and ?A = "example_attention 1"
  let ?s = "\<lparr>memory_banks = Some [], encoder_states = None\<rparr>"
  have n: "pre_attention_norm ?L x = Some x"
    by (simp add: pre_attention_norm_def context_layer_fields)
  from layer_attention_input_is3[OF x n x] obtain z where
    z: "layer_attention_input ?L x = Some z" "is3 z (Suc T) B 1" by blast
  have z': "is3 z (Suc T) B (embed_dim ?A)" using z(2) by (simp add: ex_fields)
  have "\<exists>out next_m. forward ?A z ?s (Some m)
             = Some (out, ?s\<lparr>memory_banks := Some ([] @ [next_m])\<rparr>)
           \<and> is3 out T B (embed_dim ?A) \<and> is3 next_m 1 B (embed_dim ?A)"
  proof -
    have k: "wf_padding_mask (Some m) B T" using m by (simp add: wf_padding_mask_def)
    show ?thesis by (rule forward_returns[OF ex_wf z' B _ _ k]) simp_all
  qed
  then obtain out st where
    f: "forward ?A z ?s (Some m) = Some (out, st)" "is3 out T B 1"
    by (auto simp: ex_fields)
  from bop3_is3[OF x f(2), of fl_add] obtain a where
    a: "bop3 fl_add x out = Some a" "is3 a T B 1" by blast
  from unit_norm_is3[OF a(2)] obtain c where
    c: "apply_layer_norm unit_norm a = Some c" "is3 c T B 1" by blast
  from bop3_is3[OF c(2) c(2), of fl_add] obtain d where
    d: "bop3 fl_add c c = Some d" "is3 d T B 1" by blast
  from unit_norm_is3[OF d(2)] obtain e where
    e: "apply_layer_norm unit_norm d = Some e" "is3 e T B 1" by blast
  have "layer_forward ?L x \<lparr>memory_banks = None, encoder_states = None\<rparr> (Some m)
      = Some (e, st)"
    by (simp add: layer_forward_def context_layer_fields z(1) f(1) a(1) c(1) d(1) e(1))
  then show ?thesis using e(2) by blast
qed

theorem encoder_forward_trims_witness:
  "\<exists>y0 s0 y1 s1 t0 t1.
      layer_outputs context_mask (transformer_layers context_encoder) 0 context_frames
          (initial_states context_encoder None) = [(y0, s0), (y1, s1)]
      \<and> is3 y0 4 2 1 \<and> is3 y1 4 2 1
      \<and> t0 = mk3 2 2 1 (\<lambda>i j k. at3 y0 (Suc i) j k)
      \<and> t1 = mk3 2 2 1 (\<lambda>i j k. at3 y1 (Suc i) j k)
      \<and> encoder_forward context_encoder context_frames context_lengths None
          = Some (Some t1, \<lparr>shape = [2, 1], data = [2, 1]\<rparr>,
                  [s0\<lparr>encoder_states := Some t0\<rparr>, s1\<lparr>encoder_states := Some t1\<rparr>])"
proof -
  let ?E = context_encoder
  let ?s0 = "\<lparr>memory_banks = None, encoder_states = None\<rparr>"
  have x: "is3 context_frames 4 2 1" by (simp add: is3_def wft_def context_frames_def)
  have m: "wft context_mask" "shape context_mask = [2, 4]"
    by (simp_all add: wft_def context_mask_def)
  have B: "(0::nat) < 2" by simp
  from context_layer_forward[OF x B m] obtain y0 s0 where
    lf0: "layer_forward context_layer context_frames ?s0 (Some context_mask) = Some (y0, s0)"
    and y0: "is3 y0 4 2 1" by blast
  from context_layer_forward[OF y0 B m] obtain y1 s1 where
    lf1: "layer_forward context_layer y0 ?s0 (Some context_mask) = Some (y1, s1)"
    and y1: "is3 y1 4 2 1" by blast
  have fields: "subsample ?E context_frames context_lengths = Some (context_frames, context_mask)"
    "transformer_layers ?E = [context_layer, context_layer]"
    "left_context_after_stride ?E = 1" "right_context_after_stride ?E = 1"
    by (simp_all add: context_encoder_def)
  have l: "0 \<le> left_context_after_stride ?E" and r: "0 \<le> right_context_after_stride ?E"
    by (simp_all add: fields)
  define t0 where "t0 = mk3 2 2 1 (\<lambda>i j k. at3 y0 (Suc i) j k)"
  define t1 where "t1 = mk3 2 2 1 (\<lambda>i j k. at3 y1 (Suc i) j k)"
  have tr0: "trim_context ?E y0 = Some t0"
    using trim_context_is3[OF l r y0] by (simp add: fields t0_def)
  have tr1: "trim_context ?E y1 = Some t1"
    using trim_context_is3[OF l r y1] by (simp add: fields t1_def)
  let ?ss = "[s0\<lparr>encoder_states := Some t0\<rparr>, s1\<lparr>encoder_states := Some t1\<rparr>]"
  from count_unpadded_trimmed[OF l r m] obtain sl c where
    sl: "slice1 (Some (left_context_after_stride ?E)) (trim_stop ?E) context_mask = Some sl"
        "count_unpadded sl = Some c"
    by (auto split: bind_splits)
  have rl: "run_layers ?E context_mask [context_layer, context_layer] 0 context_frames [?s0, ?s0]
      = Some (y1, ?ss)"
    by (simp add: lf0 lf1 tr0 tr1)
  have io: "initial_states ?E None = [?s0, ?s0]"
    by (simp add: initial_states_def fields numeral_2_eq_2)
  have lo: "layer_outputs context_mask (transformer_layers ?E) 0 context_frames
          (initial_states ?E None) = [(y0, s0), (y1, s1)]"
    by (simp add: io fields(2) lf0 lf1)
  have ef: "encoder_forward ?E context_frames context_lengths None = Some (Some t1, c, ?ss)"
    unfolding encoder_forward_def
    by (simp add: fields(1,2) rl sl numeral_2_eq_2 del: run_layers.simps)
  note th = encoder_forward_trims[OF ef fields(1) m l r]
  from th have "c = mk2 2 1 (\<lambda>b j. int (length (filter (\<lambda>t. \<not> at2 context_mask b t)
               [nat (left_context_after_stride ?E)..<4 - nat (right_context_after_stride ?E)])))"
    by blast
  also have "\<dots> = \<lparr>shape = [2, 1], data = [2, 1]\<rparr>"
    by (simp add: mk2_def fields upt_eval at2_def context_mask_def)
  finally have c: "c = \<lparr>shape = [2, 1], data = [2, 1]\<rparr>" .
  show ?thesis
    by (rule exI[of _ y0], rule exI[of _ s0], rule exI[of _ y1], rule exI[of _ s1],
        rule exI[of _ t0], rule exI[of _ t1])
       (intro conjI lo y0 y1 t0_def t1_def ef[unfolded c])
qed

end
